theory Spec2Isabelle
  imports Complex_Main "HOL-Library.Word" "HOL-Library.Log_Nat"
begin

unbundle bit_operations_syntax

section \<open>Photo asset pipeline: data model\<close>

text \<open>
  A shallow embedding of the photo pipeline of the relief API: the local disk cache
  (package \<open>localcache\<close>), the object-store client (package \<open>storage\<close>) and the
  upload and retrieval handlers (package \<open>handlers\<close>). Go strings are byte strings
  and are modelled as \<open>string\<close>; file contents and HTTP bodies are lists of bytes.
\<close>

type_synonym byte = "8 word"
type_synonym bytes = "byte list"

datatype error =
    MkdirFailed | CreateFailed | WriteFailed | CloseFailed | RenameFailed
  | ReadFailed | NotInitialized | KeyRequired | StoreFailed | PresignFailed
  | DecodeFailed | EncodeFailed | OpenFailed

text \<open>An \<open>io.Reader\<close>: the bytes it yields, then end of file or a read error.\<close>

record reader =
  rd_data :: bytes
  rd_err :: "error option"

subsection \<open>Decimal formatting (\<open>fmt.Sprintf("%d", n)\<close>)\<close>

definition digitChar :: "nat \<Rightarrow> char" where
  "digitChar d = ''0123456789'' ! (d mod 10)"

fun decimal :: "nat \<Rightarrow> string" where
  "decimal n = (if n < 10 then [digitChar n] else decimal (n div 10) @ [digitChar (n mod 10)])"

declare decimal.simps [simp del]

definition fmt_d :: "int \<Rightarrow> string" where
  "fmt_d i = (if i < 0 then CHR ''-'' # decimal (nat (- i)) else decimal (nat i))"

subsection \<open>SHA-256 and hexadecimal encoding (\<open>crypto/sha256\<close>, \<open>encoding/hex\<close>)\<close>

type_synonym w32 = "32 word"

text \<open>The round constants, in the order of the rounds.\<close>

definition K256 :: "w32 list" where
  "K256 =
    [
     1116352408, 1899447441, 3049323471, 3921009573,
     961987163, 1508970993, 2453635748, 2870763221,
     3624381080, 310598401, 607225278, 1426881987,
     1925078388, 2162078206, 2614888103, 3248222580,
     3835390401, 4022224774, 264347078, 604807628,
     770255983, 1249150122, 1555081692, 1996064986,
     2554220882, 2821834349, 2952996808, 3210313671,
     3336571891, 3584528711, 113926993, 338241895,
     666307205, 773529912, 1294757372, 1396182291,
     1695183700, 1986661051, 2177026350, 2456956037,
     2730485921, 2820302411, 3259730800, 3345764771,
     3516065817, 3600352804, 4094571909, 275423344,
     430227734, 506948616, 659060556, 883997877,
     958139571, 1322822218, 1537002063, 1747873779,
     1955562222, 2024104815, 2227730452, 2361852424,
     2428436474, 2756734187, 3204031479, 3329325298]"

record hstate =
  ha :: w32
  hb :: w32
  hc :: w32
  hd4 :: w32
  he :: w32
  hf :: w32
  hg :: w32
  hh :: w32

definition H256 :: hstate where
  "H256 = \<lparr>ha = 1779033703, hb = 3144134277, hc = 1013904242, hd4 = 2773480762,
            he = 1359893119, hf = 2600822924, hg = 528734635, hh = 1541459225\<rparr>"

definition sha_pad :: "bytes \<Rightarrow> bytes" where
  "sha_pad m = (let l = length m; z = (119 - l mod 64) mod 64 in
     m @ [0x80] @ replicate z 0 @
     map (\<lambda>i. (ucast (drop_bit (8 * (7 - i)) (of_nat (8 * l) :: 64 word)) :: byte)) [0..<8])"

definition be32 :: "bytes \<Rightarrow> w32" where
  "be32 bs = foldl (\<lambda>acc b. push_bit 8 acc OR ucast b) 0 (take 4 bs)"

fun chunks :: "nat \<Rightarrow> nat \<Rightarrow> 'a list \<Rightarrow> 'a list list" where
  "chunks 0 n xs = []"
| "chunks (Suc k) n xs = take n xs # chunks k n (drop n xs)"

definition ssig0 :: "w32 \<Rightarrow> w32" where
  "ssig0 x = word_rotr 7 x XOR word_rotr 18 x XOR drop_bit 3 x"

definition ssig1 :: "w32 \<Rightarrow> w32" where
  "ssig1 x = word_rotr 17 x XOR word_rotr 19 x XOR drop_bit 10 x"

definition bsig0 :: "w32 \<Rightarrow> w32" where
  "bsig0 x = word_rotr 2 x XOR word_rotr 13 x XOR word_rotr 22 x"

definition bsig1 :: "w32 \<Rightarrow> w32" where
  "bsig1 x = word_rotr 6 x XOR word_rotr 11 x XOR word_rotr 25 x"

fun schedule :: "nat \<Rightarrow> w32 list \<Rightarrow> w32 list" where
  "schedule 0 ws = ws"
| "schedule (Suc k) ws =
     (let t = length ws in
      schedule k (ws @ [ssig1 (ws ! (t - 2)) + ws ! (t - 7) + ssig0 (ws ! (t - 15)) + ws ! (t - 16)]))"

definition round256 :: "hstate \<Rightarrow> w32 \<times> w32 \<Rightarrow> hstate" where
  "round256 s kw =
     (let t1 = hh s + bsig1 (he s) + ((he s AND hf s) XOR (NOT (he s) AND hg s)) + fst kw + snd kw;
          t2 = bsig0 (ha s) + ((ha s AND hb s) XOR (ha s AND hc s) XOR (hb s AND hc s))
      in \<lparr>ha = t1 + t2, hb = ha s, hc = hb s, hd4 = hc s,
          he = hd4 s + t1, hf = he s, hg = hf s, hh = hg s\<rparr>)"

definition compress :: "hstate \<Rightarrow> bytes \<Rightarrow> hstate" where
  "compress s blk =
     (let ws = schedule 48 (map be32 (chunks 16 4 blk));
          r = foldl round256 s (zip K256 ws)
      in \<lparr>ha = ha s + ha r, hb = hb s + hb r, hc = hc s + hc r, hd4 = hd4 s + hd4 r,
          he = he s + he r, hf = hf s + hf r, hg = hg s + hg r, hh = hh s + hh r\<rparr>)"

definition w32_bytes :: "w32 \<Rightarrow> bytes" where
  "w32_bytes x = [ucast (drop_bit 24 x), ucast (drop_bit 16 x), ucast (drop_bit 8 x), ucast x]"

definition sha256_Sum256 :: "bytes \<Rightarrow> bytes" where
  "sha256_Sum256 m =
     (let p = sha_pad m; s = foldl compress H256 (chunks (length p div 64) 64 p)
      in concat (map w32_bytes [ha s, hb s, hc s, hd4 s, he s, hf s, hg s, hh s]))"

definition hextable :: string where
  "hextable = ''0123456789abcdef''"

definition hexdigit :: "nat \<Rightarrow> char" where
  "hexdigit n = hextable ! (n mod 16)"

definition hex_EncodeToString :: "bytes \<Rightarrow> string" where
  "hex_EncodeToString bs =
     concat (map (\<lambda>b. [hexdigit (unat b div 16), hexdigit (unat b mod 16)]) bs)"

definition str_bytes :: "string \<Rightarrow> bytes" where
  "str_bytes s = map (\<lambda>c. of_nat (of_char c)) s"

subsection \<open>Path manipulation (\<open>path/filepath\<close> with separator \<open>/\<close>)\<close>

definition sep :: char where
  "sep = CHR ''/''"

fun splitSlash :: "string \<Rightarrow> string list" where
  "splitSlash [] = [[]]"
| "splitSlash (c # cs) =
     (if c = sep then [] # splitSlash cs
      else (c # hd (splitSlash cs)) # tl (splitSlash cs))"

fun joinSlash :: "string list \<Rightarrow> string" where
  "joinSlash [] = []"
| "joinSlash [e] = e"
| "joinSlash (e # es) = e @ sep # joinSlash es"

text \<open>
  One iteration of the loop of \<open>filepath.Clean\<close>, on whole path elements. The output
  buffer is kept as a stack of elements, the last one first. An empty element and
  \<open>.\<close> are dropped; \<open>..\<close> removes the last real element when there is one, is kept
  in a relative path, and is dropped at the root; any other element is appended.
\<close>

definition cleanStep :: "bool \<Rightarrow> string list \<Rightarrow> string \<Rightarrow> string list" where
  "cleanStep rooted out e =
     (if e = [] \<or> e = ''.'' then out
      else if e = ''..'' then
        (case out of
           [] \<Rightarrow> if rooted then [] else [''..'']
         | t # ts \<Rightarrow> if t = ''..'' then ''..'' # out else ts)
      else e # out)"

definition filepath_Clean :: "string \<Rightarrow> string" where
  "filepath_Clean path =
     (if path = [] then ''.''
      else
        let rooted = (hd path = sep);
            out = rev (foldl (cleanStep rooted) [] (splitSlash path));
            s = (if rooted then [sep] else []) @ joinSlash out
        in if s = [] then ''.'' else s)"

definition filepath_Join :: "string list \<Rightarrow> string" where
  "filepath_Join elem =
     (case dropWhile (\<lambda>e. e = []) elem of
        [] \<Rightarrow> []
      | e # es \<Rightarrow> filepath_Clean (joinSlash (e # es)))"

definition stripTrailingSlashes :: "string \<Rightarrow> string" where
  "stripTrailingSlashes p = rev (dropWhile (\<lambda>c. c = sep) (rev p))"

definition filepath_Base :: "string \<Rightarrow> string" where
  "filepath_Base path =
     (if path = [] then ''.''
      else
        let p = stripTrailingSlashes path;
            l = rev (takeWhile (\<lambda>c. c \<noteq> sep) (rev p))
        in if l = [] then [sep] else l)"

section \<open>Local disk cache (package \<open>localcache\<close>)\<close>

definition Dir :: string where
  "Dir = ''.cache''"

definition hexsum :: "string \<Rightarrow> string" where
  "hexsum objectKey = hex_EncodeToString (sha256_Sum256 (str_bytes objectKey))"

definition cacheFilename :: "string \<Rightarrow> string" where
  "cacheFilename objectKey =
     (let filename = filepath_Base objectKey
      in if filename = ''.'' \<or> filename = [sep] \<or> filename = [] then hexsum objectKey
         else filename)"


definition PhotoPath :: "string \<Rightarrow> string" where
  "PhotoPath objectKey =
     (let shard = take 2 (hexsum objectKey);
          filename = cacheFilename objectKey
      in filepath_Join [Dir, ''photos'', shard, filename])"

definition ThumbPath :: "string \<Rightarrow> string \<Rightarrow> string" where
  "ThumbPath objectKey spec =
     (let shard = take 2 (hexsum objectKey);
          filename = cacheFilename objectKey
      in filepath_Join [Dir, ''thumbs'', spec, shard, filename])"

text \<open>
  The disk holds regular files only: a partial map from path to contents. Every
  file-system call of \<open>Save\<close> can fail; which ones do is given by the fault record.
  \<open>write_limit = Some n\<close> is a disk that takes \<open>n\<close> more bytes and then fails.
\<close>

type_synonym disk = "string \<rightharpoonup> bytes"

record disk_faults =
  mkdir_fails :: bool
  create_fails :: bool
  write_limit :: "nat option"
  close_fails :: bool
  rename_fails :: bool
  remove_fails :: bool

definition no_faults :: disk_faults where
  "no_faults = \<lparr>mkdir_fails = False, create_fails = False, write_limit = None,
                 close_fails = False, rename_fails = False, remove_fails = False\<rparr>"

definition EnsureDir :: "disk_faults \<Rightarrow> string \<Rightarrow> error option" where
  "EnsureDir flt path = (if mkdir_fails flt then Some MkdirFailed else None)"

definition tmpName :: "string \<Rightarrow> nat \<Rightarrow> string" where
  "tmpName path pid = path @ ''.tmp-'' @ fmt_d (int pid)"

text \<open>\<open>io.Copy(f, r)\<close>: the bytes that reach the file, and the write or read error.\<close>

definition io_Copy :: "disk_faults \<Rightarrow> reader \<Rightarrow> bytes \<times> error option" where
  "io_Copy flt r =
     (case write_limit flt of
        Some n \<Rightarrow>
          if n < length (rd_data r) then (take n (rd_data r), Some WriteFailed)
          else (rd_data r, rd_err r)
      | None \<Rightarrow> (rd_data r, rd_err r))"

text \<open>The file-system calls used by \<open>Save\<close>, on paths.\<close>

definition os_Create :: "string \<Rightarrow> disk \<Rightarrow> disk" where
  "os_Create p d = d(p \<mapsto> [])"

definition file_Write :: "string \<Rightarrow> bytes \<Rightarrow> disk \<Rightarrow> disk" where
  "file_Write p bs d = (case d p of Some old \<Rightarrow> d(p \<mapsto> old @ bs) | None \<Rightarrow> d)"

definition os_Rename :: "string \<Rightarrow> string \<Rightarrow> disk \<Rightarrow> disk" where
  "os_Rename old new d = (case d old of Some c \<Rightarrow> (d(new \<mapsto> c))(old := None) | None \<Rightarrow> d)"

definition os_Remove :: "disk_faults \<Rightarrow> string \<Rightarrow> disk \<Rightarrow> disk" where
  "os_Remove flt p d = (if remove_fails flt then d else d(p := None))"

definition Save :: "disk_faults \<Rightarrow> nat \<Rightarrow> string \<Rightarrow> reader \<Rightarrow> disk \<Rightarrow> error option \<times> disk" where
  "Save flt pid path r d =
     (case EnsureDir flt path of
        Some err \<Rightarrow> (Some err, d)
      | None \<Rightarrow>
          let tmp = tmpName path pid in
          if create_fails flt then (Some CreateFailed, d)
          else
            let (written, werr) = io_Copy flt r;
                d1 = file_Write tmp written (os_Create tmp d)
            in (case werr of
                  Some e \<Rightarrow> (Some e, os_Remove flt tmp d1)
                | None \<Rightarrow>
                    if close_fails flt then (Some CloseFailed, os_Remove flt tmp d1)
                    else if rename_fails flt then (Some RenameFailed, os_Remove flt tmp d1)
                    else (None, os_Rename tmp path d1)))"

definition Exists :: "disk \<Rightarrow> string \<Rightarrow> bool" where
  "Exists d path = (d path \<noteq> None)"

section \<open>Object-store client (package \<open>storage\<close>)\<close>

text \<open>
  The SDK client is an oracle: what the store answers to each call. The first argument
  of \<open>sdk_GetObject\<close> counts the calls made during one request, since a handler may
  fetch the same key twice and get two different answers. The bucket is a map from
  key to contents.
\<close>

type_synonym bucket = "string \<rightharpoonup> bytes"

record s3_client =
  sdk_GetObject :: "nat \<Rightarrow> string \<Rightarrow> error + (reader \<times> string option \<times> int option)"
  sdk_Presign :: "string \<Rightarrow> error + string"
  sdk_PutFails :: bool
  sdk_Location :: "string \<Rightarrow> string"

record S3Uploader =
  client :: "s3_client option"
  bucketName :: string
  baseURL :: string
  maxBytes :: int

text \<open>
  \<open>io.LimitedReader{R: r, N: n}\<close>: at most \<open>n\<close> bytes of \<open>r\<close>, then end of file.
  The error of \<open>r\<close> is seen only when \<open>r\<close> ends before \<open>n\<close> bytes were read.
\<close>

definition io_LimitReader :: "reader \<Rightarrow> int \<Rightarrow> reader" where
  "io_LimitReader r n =
     (if n \<le> int (length (rd_data r)) then \<lparr>rd_data = take (nat n) (rd_data r), rd_err = None\<rparr>
      else r)"

definition io_ReadAll :: "reader \<Rightarrow> bytes \<times> error option" where
  "io_ReadAll r = (rd_data r, rd_err r)"





definition MaxBytes :: "S3Uploader \<Rightarrow> int" where
  "MaxBytes u = maxBytes u"

definition PresignGet :: "S3Uploader \<Rightarrow> string \<Rightarrow> error + string" where
  "PresignGet u key =
     (case client u of
        None \<Rightarrow> Inl NotInitialized
      | Some c \<Rightarrow> if key = [] then Inl KeyRequired else sdk_Presign c key)"

definition GetObject :: "S3Uploader \<Rightarrow> nat \<Rightarrow> string \<Rightarrow> error + (reader \<times> string \<times> int)" where
  "GetObject u n key =
     (case client u of
        None \<Rightarrow> Inl NotInitialized
      | Some c \<Rightarrow>
          if key = [] then Inl KeyRequired
          else (case sdk_GetObject c n key of
                  Inl err \<Rightarrow> Inl err
                | Inr (body, ct, cl) \<Rightarrow>
                    Inr (body, (case ct of Some t \<Rightarrow> t | None \<Rightarrow> []),
                         (case cl of Some l \<Rightarrow> l | None \<Rightarrow> - 1))))"

section \<open>Double-precision arithmetic of the height computation\<close>

text \<open>
  A \<open>float64\<close> is modelled by the rational it denotes. Every operation is rounded to
  the nearest number with a 53-bit significand, ties to even, as IEEE 754 prescribes.
  The exponent range is not modelled: the quotients and products of image dimensions
  stay far inside it.
\<close>

definition pow2 :: "int \<Rightarrow> rat" where
  "pow2 k = (if 0 \<le> k then 2 ^ nat k else 1 / 2 ^ nat (- k))"

definition round_half_even :: "rat \<Rightarrow> int" where
  "round_half_even x =
     (let f = \<lfloor>x\<rfloor>; r = x - of_int f
      in if r < 1 / 2 then f else if 1 / 2 < r then f + 1 else if even f then f else f + 1)"

text \<open>For \<open>0 < x\<close>: the \<open>k\<close> with \<open>2 ^ k \<le> x < 2 ^ (k + 1)\<close>.\<close>

definition ilog2 :: "rat \<Rightarrow> int" where
  "ilog2 x =
     (let (a, b) = quotient_of x;
          k0 = bitlen a - bitlen b
      in if pow2 k0 \<le> x then k0 else k0 - 1)"

definition float64_round :: "rat \<Rightarrow> rat" where
  "float64_round x =
     (if x = 0 then 0
      else
        let e = ilog2 \<bar>x\<bar> - 52;
            m = round_half_even (\<bar>x\<bar> / pow2 e)
        in sgn x * of_int m * pow2 e)"

definition float64 :: "int \<Rightarrow> rat" where
  "float64 i = float64_round (of_int i)"

definition float64_div :: "rat \<Rightarrow> rat \<Rightarrow> rat" where
  "float64_div x y = float64_round (x / y)"

definition float64_mul :: "rat \<Rightarrow> rat \<Rightarrow> rat" where
  "float64_mul x y = float64_round (x * y)"

text \<open>The conversion \<open>int(f)\<close> drops the fraction (rounds towards zero).\<close>

definition int_of_float64 :: "rat \<Rightarrow> int" where
  "int_of_float64 x = (if 0 \<le> x then \<lfloor>x\<rfloor> else \<lceil>x\<rceil>)"

text \<open>
  \<open>height := int(float64(b.Dy()) * (float64(width) / float64(b.Dx())))\<close>, followed by
  \<open>if height <= 0 { height = 1 }\<close>. The division is guarded: the handlers compute
  the height only when \<open>b.Dx() > width > 0\<close>.
\<close>

definition scaledHeight :: "int \<Rightarrow> int \<Rightarrow> int \<Rightarrow> int" where
  "scaledHeight dy width dx =
     int_of_float64 (float64_mul (float64 dy) (float64_div (float64 width) (float64 dx)))"

definition thumbHeight :: "int \<Rightarrow> int \<Rightarrow> int \<Rightarrow> int" where
  "thumbHeight dy width dx =
     (let height = scaledHeight dy width dx in if height \<le> 0 then 1 else height)"

text \<open>
  The height as the specification words it: \<open>round(nativeHeight * requestedWidth /
  nativeWidth)\<close>, at least 1, in exact arithmetic. It is compared with \<open>thumbHeight\<close>.
\<close>

definition specHeight :: "int \<Rightarrow> int \<Rightarrow> int \<Rightarrow> int" where
  "specHeight dy width dx =
     (let height = round (of_int dy * of_int width / of_int dx :: rat)
      in if height < 1 then 1 else height)"

section \<open>Image transcoding\<close>

type_synonym colour = "32 word"

text \<open>
  A decoded image: the size of its bounds, the format name reported by the decoder and
  the colour at each point, counted from the upper left corner of the bounds.
\<close>

record image =
  img_dx :: int
  img_dy :: int
  img_format :: string
  img_at :: "int \<Rightarrow> int \<Rightarrow> colour"

text \<open>Nearest-neighbour scaling into a new RGBA image of the given size.\<close>

definition resample :: "image \<Rightarrow> int \<Rightarrow> int \<Rightarrow> image" where
  "resample img width height =
     \<lparr>img_dx = width, img_dy = height, img_format = [],
      img_at = (\<lambda>x y. if 0 \<le> x \<and> x < width \<and> 0 \<le> y \<and> y < height
                       then img_at img (x * img_dx img div width) (y * img_dy img div height)
                       else 0)\<rparr>"

section \<open>Retrieval handlers (package \<open>handlers\<close>)\<close>

record photo_row =
  public_url :: string
  object_key :: string
  content_type :: string

text \<open>
  Everything outside the handler that a request depends on: the metadata store, the
  object-store client (\<open>None\<close> when \<open>h.s3\<close> is nil), the process id, the faults
  of the local disk, the image codecs of the standard library and the content sniffer.
\<close>

record env =
  db_photos :: "string \<rightharpoonup> photo_row"
  s3 :: "S3Uploader option"
  os_pid :: nat
  open_fails :: bool
  file_read_err :: "error option"
  faults :: disk_faults
  image_Decode :: "bytes \<Rightarrow> error + image"
  png_Encode :: "image \<Rightarrow> error + bytes"
  jpeg_Encode :: "nat \<Rightarrow> image \<Rightarrow> error + bytes"
  http_DetectContentType :: "bytes \<Rightarrow> string"
  client_write_fails :: bool

datatype body =
    JSONError string
  | FileBody string bytes
  | DataBody bytes
  | StreamBody bytes
  | RedirectTo string

record response =
  status :: nat
  cache_control :: "string option"
  content_type_hdr :: "string option"
  body :: body

text \<open>The calls a request makes to the metadata store, the object store and the codecs.\<close>

datatype event =
    DbLookup string
  | S3Get string
  | S3Presign string
  | Decode bytes
  | CacheSave string

type_synonym outcome = "response \<times> disk \<times> event list"

definition immutableCC :: string where
  "immutableCC = ''public, max-age=31536000, immutable''"

definition privateCC :: string where
  "privateCC = ''private, max-age=60''"

definition c_JSON :: "nat \<Rightarrow> string \<Rightarrow> response" where
  "c_JSON code msg =
     \<lparr>status = code, cache_control = None, content_type_hdr = None, body = JSONError msg\<rparr>"

definition readFile :: "disk \<Rightarrow> string \<Rightarrow> bytes" where
  "readFile d p = (case d p of Some c \<Rightarrow> c | None \<Rightarrow> [])"

definition c_File :: "string option \<Rightarrow> string option \<Rightarrow> disk \<Rightarrow> string \<Rightarrow> response" where
  "c_File cc ct d p =
     \<lparr>status = (if Exists d p then 200 else 404), cache_control = cc, content_type_hdr = ct,
      body = FileBody p (readFile d p)\<rparr>"

definition c_Data :: "string option \<Rightarrow> nat \<Rightarrow> string \<Rightarrow> bytes \<Rightarrow> response" where
  "c_Data cc code ct data =
     \<lparr>status = code, cache_control = cc, content_type_hdr = Some ct, body = DataBody data\<rparr>"

definition c_Redirect :: "string option \<Rightarrow> string option \<Rightarrow> nat \<Rightarrow> string \<Rightarrow> response" where
  "c_Redirect cc ct code location =
     \<lparr>status = code, cache_control = cc, content_type_hdr = ct, body = RedirectTo location\<rparr>"

definition bytes_NewReader :: "bytes \<Rightarrow> reader" where
  "bytes_NewReader data = \<lparr>rd_data = data, rd_err = None\<rparr>"

definition decodeLimit :: int where
  "decodeLimit = 32 * 2 ^ 20"

text \<open>
  The source of a thumbnail: the original in the local cache when it exists and opens,
  else the object from the store.
\<close>

definition openSource :: "env \<Rightarrow> disk \<Rightarrow> string \<Rightarrow> reader option \<times> event list" where
  "openSource e d objectKey =
     (let srcPath = PhotoPath objectKey;
          src = (if Exists d srcPath \<and> \<not> open_fails e
                 then Some \<lparr>rd_data = readFile d srcPath, rd_err = file_read_err e\<rparr>
                 else None)
      in case (src, s3 e) of
           (None, Some u) \<Rightarrow>
             (case GetObject u 0 objectKey of
                Inr (rc, _, _) \<Rightarrow> (Some rc, [S3Get objectKey])
              | Inl _ \<Rightarrow> (None, [S3Get objectKey]))
         | _ \<Rightarrow> (src, []))"

text \<open>The redirect to a presigned link, or the given response when there is none.\<close>

definition presignRedirect :: "env \<Rightarrow> string \<Rightarrow> response \<Rightarrow> response \<times> event list" where
  "presignRedirect e objectKey otherwise =
     (case s3 e of
        None \<Rightarrow> (otherwise, [])
      | Some u \<Rightarrow>
          (case PresignGet u objectKey of
             Inr presigned \<Rightarrow> (c_Redirect (Some privateCC) None 302 presigned, [S3Presign objectKey])
           | Inl _ \<Rightarrow> (otherwise, [S3Presign objectKey])))"

definition encodeThumb :: "env \<Rightarrow> string \<Rightarrow> image \<Rightarrow> error + string \<times> bytes" where
  "encodeThumb e format dst =
     (if format = ''png''
      then (case png_Encode e dst of Inl err \<Rightarrow> Inl err | Inr buf \<Rightarrow> Inr (''image/png'', buf))
      else (case jpeg_Encode e 75 dst of Inl err \<Rightarrow> Inl err | Inr buf \<Rightarrow> Inr (''image/jpeg'', buf)))"

text \<open>
  The thumbnail path shared by \<open>GetPhoto\<close> (lines 192 to 275) and \<open>GetPhotoThumbnail\<close>
  (lines 345 to 443). The two copies differ in one place, the content type of the
  original bytes served when they could not be saved: it is the parameter \<open>plainCT\<close>.
\<close>

definition serveThumb ::
  "env \<Rightarrow> disk \<Rightarrow> string \<Rightarrow> (bytes \<Rightarrow> string) \<Rightarrow> string \<Rightarrow> int \<Rightarrow> outcome" where
  "serveThumb e d objectKey plainCT spec width =
     (let thumbPath = ThumbPath objectKey spec in
      if Exists d thumbPath then (c_File (Some immutableCC) None d thumbPath, d, [])
      else
        (case openSource e d objectKey of
           (None, tr) \<Rightarrow>
             (let (resp, tr2) = presignRedirect e objectKey (c_JSON 503 ''source unavailable'')
              in (resp, d, tr @ tr2))
         | (Some src, tr) \<Rightarrow>
             (case io_ReadAll (io_LimitReader src decodeLimit) of
                (data, Some err) \<Rightarrow> (c_JSON 500 ''read failed'', d, tr)
              | (data, None) \<Rightarrow>
                  (case image_Decode e data of
                     Inl err \<Rightarrow>
                       (let (resp, tr2) = presignRedirect e objectKey (c_JSON 400 ''decode failed'')
                        in (resp, d, tr @ [Decode data] @ tr2))
                   | Inr img \<Rightarrow>
                       if img_dx img \<le> width then
                         (case Save (faults e) (os_pid e) thumbPath (bytes_NewReader data) d of
                            (None, d') \<Rightarrow>
                              (c_File (Some immutableCC) None d' thumbPath, d',
                               tr @ [Decode data, CacheSave thumbPath])
                          | (Some err, d') \<Rightarrow>
                              (c_Data None 200 (plainCT data) data, d',
                               tr @ [Decode data, CacheSave thumbPath]))
                       else
                         (let height = thumbHeight (img_dy img) width (img_dx img);
                              dst = resample img width height
                          in case encodeThumb e (img_format img) dst of
                               Inl err \<Rightarrow> (c_JSON 500 ''encode failed'', d, tr @ [Decode data])
                             | Inr (ct, buf) \<Rightarrow>
                                 (case Save (faults e) (os_pid e) thumbPath (bytes_NewReader buf) d of
                                    (None, d') \<Rightarrow>
                                      (c_Data (Some immutableCC) 200 ct buf, d',
                                       tr @ [Decode data, CacheSave thumbPath])
                                  | (Some err, d') \<Rightarrow>
                                      (c_Data (Some privateCC) 200 ct buf, d',
                                       tr @ [Decode data, CacheSave thumbPath])))))))"

text \<open>
  The width of a thumbnail spec (lines 321 to 337 of \<open>GetPhotoThumbnail\<close>), or the
  message of the 400 response. The width is accumulated in a Go \<open>int\<close>, 64 bits wide,
  whose arithmetic wraps around.
\<close>

definition isDigit :: "char \<Rightarrow> bool" where
  "isDigit ch = (48 \<le> (of_char ch :: nat) \<and> (of_char ch :: nat) \<le> 57)"

definition atoiWrap :: "string \<Rightarrow> 64 word" where
  "atoiWrap widthStr = foldl (\<lambda>width ch. width * 10 + of_nat (of_char ch - 48)) 0 widthStr"

definition thumbSpecWidth :: "string \<Rightarrow> string + int" where
  "thumbSpecWidth spec =
     (if spec = [] \<or> take 1 spec \<noteq> ''w'' then Inl ''invalid thumbnail spec''
      else
        let widthStr = drop 1 spec in
        if widthStr = [] then Inl ''missing width''
        else if \<not> list_all isDigit widthStr then Inl ''invalid width''
        else
          let width = sint (atoiWrap widthStr) in
          if width \<le> 0 \<or> 4096 < width then Inl ''width out of range'' else Inr width)"

definition withEvents :: "event list \<Rightarrow> outcome \<Rightarrow> outcome" where
  "withEvents evs out = (case out of (resp, d, tr) \<Rightarrow> (resp, d, evs @ tr))"

definition GetPhotoThumbnail :: "env \<Rightarrow> disk \<Rightarrow> string \<Rightarrow> string \<Rightarrow> outcome" where
  "GetPhotoThumbnail e d ident spec =
     (case thumbSpecWidth spec of
        Inl msg \<Rightarrow> (c_JSON 400 msg, d, [])
      | Inr width \<Rightarrow>
          (case db_photos e ident of
             None \<Rightarrow> (c_JSON 404 ''not found'', d, [DbLookup ident])
           | Some row \<Rightarrow>
               withEvents [DbLookup ident]
                 (serveThumb e d (object_key row) (\<lambda>data. content_type row) spec width)))"

text \<open>\<open>strings.ToLower\<close> and \<open>strings.TrimSpace\<close>, on ASCII.\<close>

definition asciiLower :: "char \<Rightarrow> char" where
  "asciiLower ch =
     (if 65 \<le> (of_char ch :: nat) \<and> (of_char ch :: nat) \<le> 90 then char_of ((of_char ch :: nat) + 32)
      else ch)"

definition strings_ToLower :: "string \<Rightarrow> string" where
  "strings_ToLower s = map asciiLower s"

definition isSpace :: "char \<Rightarrow> bool" where
  "isSpace ch = ((of_char ch :: nat) \<in> {9, 10, 11, 12, 13, 32})"

definition strings_TrimSpace :: "string \<Rightarrow> string" where
  "strings_TrimSpace s = rev (dropWhile isSpace (rev (dropWhile isSpace s)))"

definition targetWidthOf :: "string \<Rightarrow> int" where
  "targetWidthOf thumbSel =
     (if thumbSel = [] \<or> thumbSel = ''medium'' then 300
      else if thumbSel = ''small'' then 100
      else if thumbSel = ''large'' then 1200
      else if thumbSel = ''original'' then 0
      else 300)"

definition nonEmpty :: "string \<Rightarrow> string option" where
  "nonEmpty s = (if s = [] then None else Some s)"

text \<open>
  The end of the original path of \<open>GetPhoto\<close> (lines 306 to 313): the redirect to a
  presigned link, else the redirect to the stored public URL.
\<close>

definition presignOrPublic ::
  "S3Uploader \<Rightarrow> string \<Rightarrow> string \<Rightarrow> string option \<Rightarrow> response \<times> event list" where
  "presignOrPublic u objectKey url ct =
     (case PresignGet u objectKey of
        Inr presigned \<Rightarrow> (c_Redirect (Some privateCC) ct 302 presigned, [S3Presign objectKey])
      | Inl _ \<Rightarrow> (c_Redirect (Some immutableCC) ct 302 url, [S3Presign objectKey]))"

definition serveOriginal :: "env \<Rightarrow> disk \<Rightarrow> string \<Rightarrow> string \<Rightarrow> string \<Rightarrow> outcome" where
  "serveOriginal e d url objectKey contentType =
     (let cachePath = PhotoPath objectKey in
      if Exists d cachePath
      then (c_File (Some immutableCC) (nonEmpty contentType) d cachePath, d, [])
      else
        (case s3 e of
           None \<Rightarrow> (c_Redirect (Some immutableCC) None 302 url, d, [])
         | Some u \<Rightarrow>
             (case GetObject u 0 objectKey of
                Inl _ \<Rightarrow>
                  (let (resp, tr) = presignOrPublic u objectKey url None
                   in (resp, d, S3Get objectKey # tr))
              | Inr (rc, s3CT, _) \<Rightarrow>
                  (case Save (faults e) (os_pid e) cachePath rc d of
                     (None, d') \<Rightarrow>
                       (let ct = (if contentType = [] then s3CT else contentType)
                        in (c_File (Some immutableCC) (nonEmpty ct) d' cachePath, d',
                            [S3Get objectKey, CacheSave cachePath]))
                   | (Some werr, d') \<Rightarrow>
                       (case GetObject u 1 objectKey of
                          Inl _ \<Rightarrow>
                            (let (resp, tr) = presignOrPublic u objectKey url None
                             in (resp, d', [S3Get objectKey, CacheSave cachePath, S3Get objectKey] @ tr))
                        | Inr (rc2, s3CT2, _) \<Rightarrow>
                            (let ct = (if contentType = [] then s3CT2 else contentType) in
                             if rd_err rc2 = None \<and> \<not> client_write_fails e
                             then (\<lparr>status = 200, cache_control = Some privateCC,
                                    content_type_hdr = nonEmpty ct, body = StreamBody (rd_data rc2)\<rparr>,
                                   d', [S3Get objectKey, CacheSave cachePath, S3Get objectKey])
                             else
                               (let (resp, tr) = presignOrPublic u objectKey url (nonEmpty ct)
                                in (resp, d',
                                    [S3Get objectKey, CacheSave cachePath, S3Get objectKey] @ tr))))))))"

definition GetPhoto :: "env \<Rightarrow> disk \<Rightarrow> string \<Rightarrow> string \<Rightarrow> outcome" where
  "GetPhoto e d ident thumbnail =
     (case db_photos e ident of
        None \<Rightarrow> (c_JSON 404 ''not found'', d, [DbLookup ident])
      | Some row \<Rightarrow>
          let url = public_url row;
              objectKey = object_key row;
              contentType = content_type row;
              thumbSel = strings_TrimSpace (strings_ToLower thumbnail);
              targetWidth = targetWidthOf thumbSel
          in if 0 < targetWidth
             then withEvents [DbLookup ident]
                    (serveThumb e d objectKey
                       (\<lambda>data. if contentType = [] then http_DetectContentType e data else contentType)
                       (''w'' @ fmt_d targetWidth) targetWidth)
             else withEvents [DbLookup ident] (serveOriginal e d url objectKey contentType))"

subsection \<open>Conditions on the environment, and the cache-directive contract\<close>


definition presignUnavailable :: "env \<Rightarrow> string \<Rightarrow> bool" where
  "presignUnavailable e key = (case s3 e of None \<Rightarrow> True | Some u \<Rightarrow> isl (PresignGet u key))"


subsection \<open>Sample environments\<close>

definition sampleRow :: photo_row where
  "sampleRow = \<lparr>public_url = ''https://cdn.example/photos/a.png'',
                 object_key = ''photos/a.png'', content_type = ''image/png''\<rparr>"

definition sampleImage :: image where
  "sampleImage = \<lparr>img_dx = 1, img_dy = 1, img_format = ''png'', img_at = (\<lambda>x y. 0)\<rparr>"

text \<open>A decoder that knows an image by its first byte and ignores what follows it.\<close>

definition headerDecode :: "bytes \<Rightarrow> error + image" where
  "headerDecode data = (if take 1 data = [137] then Inr sampleImage else Inl DecodeFailed)"

definition baseEnv :: env where
  "baseEnv =
     \<lparr>db_photos = [''id1'' \<mapsto> sampleRow], s3 = None, os_pid = 4242, open_fails = False,
      file_read_err = None, faults = no_faults, image_Decode = headerDecode,
      png_Encode = (\<lambda>img. Inr [137]), jpeg_Encode = (\<lambda>quality img. Inr [255, 216]),
      http_DetectContentType = (\<lambda>data. ''application/octet-stream''),
      client_write_fails = False\<rparr>"

definition storeWith ::
  "(nat \<Rightarrow> string \<Rightarrow> error + (reader \<times> string option \<times> int option)) \<Rightarrow>
   (string \<Rightarrow> error + string) \<Rightarrow> S3Uploader" where
  "storeWith g p =
     \<lparr>client = Some \<lparr>sdk_GetObject = g, sdk_Presign = p, sdk_PutFails = False,
                      sdk_Location = (\<lambda>key. ''https://bucket.example/'' @ key)\<rparr>,
      bucketName = ''relief'', baseURL = [], maxBytes = 1048576\<rparr>"

text \<open>A store whose object body breaks off while it is read, and which can presign.\<close>

definition readFailEnv :: env where
  "readFailEnv =
     baseEnv\<lparr>s3 := Some (storeWith
        (\<lambda>n key. Inr (\<lparr>rd_data = [137, 80], rd_err = Some ReadFailed\<rparr>, Some ''image/png'', None))
        (\<lambda>key. Inr (''https://bucket.example/signed/'' @ key)))\<rparr>"

text \<open>An object of 32 MiB and one byte: a small image followed by padding.\<close>

definition bigData :: bytes where
  "bigData = 137 # replicate 33554432 0"

definition bigEnv :: env where
  "bigEnv =
     baseEnv\<lparr>s3 := Some (storeWith
        (\<lambda>n key. Inr (\<lparr>rd_data = bigData, rd_err = None\<rparr>, Some ''image/png'', Some 33554433))
        (\<lambda>key. Inl PresignFailed))\<rparr>"

section \<open>Properties\<close>

subsection \<open>Paths are cleaned element by element\<close>

lemma splitSlash_nonempty [simp]: "splitSlash s \<noteq> []"
  by (induction s) auto









lemma joinSlash_snoc: "es \<noteq> [] \<Longrightarrow> joinSlash (es @ [e]) = joinSlash es @ sep # e"
  by (induction es rule: joinSlash.induct) auto
























subsection \<open>Cache paths\<close>




subsection \<open>Atomic save\<close>

lemma tmpName_neq_path: "tmpName path pid \<noteq> path"
  by (simp add: tmpName_def)

lemma decimal_nonempty: "decimal n \<noteq> []"
  by (subst decimal.simps) simp

lemma digitChar_inj: "digitChar a = digitChar b \<Longrightarrow> a mod 10 = b mod 10"
proof -
  assume "digitChar a = digitChar b"
  moreover have "distinct ''0123456789''" by simp
  moreover have "a mod 10 < length ''0123456789''" "b mod 10 < length ''0123456789''" by simp_all
  ultimately show ?thesis
    unfolding digitChar_def by (simp only: nth_eq_iff_index_eq)
qed

lemma decimal_inj: "decimal m = decimal n \<Longrightarrow> m = n"
proof (induction m arbitrary: n rule: decimal.induct)
  case (1 m)
  show ?case
  proof (cases "m < 10")
    case True
    then have dm: "decimal m = [digitChar m]" by (subst decimal.simps) simp
    show ?thesis
    proof (cases "n < 10")
      case True
      then have "decimal n = [digitChar n]" by (subst decimal.simps) simp
      with dm "1.prems" have "digitChar m = digitChar n" by simp
      from digitChar_inj[OF this] \<open>m < 10\<close> \<open>n < 10\<close> show ?thesis by simp
    next
      case False
      then have "decimal n = decimal (n div 10) @ [digitChar (n mod 10)]"
        by (subst decimal.simps) simp
      with dm "1.prems" decimal_nonempty[of "n div 10"] show ?thesis by (cases "decimal (n div 10)") auto
    qed
  next
    case False
    then have dm: "decimal m = decimal (m div 10) @ [digitChar (m mod 10)]"
      by (subst decimal.simps) simp
    show ?thesis
    proof (cases "n < 10")
      case True
      then have "decimal n = [digitChar n]" by (subst decimal.simps) simp
      with dm "1.prems" decimal_nonempty[of "m div 10"] show ?thesis by (cases "decimal (m div 10)") auto
    next
      case nf: False
      then have dn: "decimal n = decimal (n div 10) @ [digitChar (n mod 10)]"
        by (subst decimal.simps) simp
      from dm dn "1.prems" have a: "decimal (m div 10) = decimal (n div 10)"
        and b: "digitChar (m mod 10) = digitChar (n mod 10)" by auto
      from "1.IH"[OF False a] have "m div 10 = n div 10" .
      moreover from digitChar_inj[OF b] have "m mod 10 = n mod 10" by simp
      ultimately show ?thesis by (metis div_mult_mod_eq)
    qed
  qed
qed

lemma tmpName_inj: "tmpName path p = tmpName path q \<longleftrightarrow> p = q"
  by (auto simp: tmpName_def fmt_d_def dest: decimal_inj)




text \<open>
  Claim C9. The temporary name is made of the path and the process id, nothing else
  (\<open>tmpName_inj\<close>): two saves of one process to the same path share one temporary
  file. Writer A creates it and writes \<open>a\<close>; writer B creates it again, which empties
  it, and has written the first \<open>n\<close> bytes of \<open>b\<close> when A renames: the destination
  now holds a part of \<open>b\<close>.
\<close>

theorem Save_same_process_race:
  "(let tmpA = tmpName path pid;
        tmpB = tmpName path pid;
        d1 = file_Write tmpA a (os_Create tmpA d);
        d2 = file_Write tmpB (take n b) (os_Create tmpB d1);
        d3 = os_Rename tmpA path d2
    in tmpA = tmpB \<and> d3 path = Some (take n b))"
  using tmpName_neq_path[of path pid]
  by (simp add: Let_def os_Create_def file_Write_def os_Rename_def)

subsection \<open>The retrieval handlers, branch by branch\<close>


lemma openSource_events: "set (snd (openSource e d key)) \<subseteq> {S3Get key}"
  by (auto simp: openSource_def Let_def split: option.splits sum.splits prod.splits if_splits)

lemma presignRedirect_cases:
  "presignRedirect e key r0 = (r, tr) \<Longrightarrow>
     set tr \<subseteq> {S3Presign key} \<and>
     ((presignUnavailable e key \<and> r = r0) \<or>
      (\<exists>u url. s3 e = Some u \<and> PresignGet u key = Inr url \<and>
         r = c_Redirect (Some privateCC) None 302 url))"
  by (auto simp: presignRedirect_def presignUnavailable_def split: option.splits sum.splits)


lemma Save_err_path:
  "Save flt pid path r d = (Some err, d') \<Longrightarrow> d' path = d path"
  using tmpName_neq_path[of path pid]
  by (auto simp: Save_def EnsureDir_def Let_def os_Remove_def os_Create_def file_Write_def
           split: if_splits option.splits prod.splits)

lemma status_simps [simp]:
  "status (c_JSON code msg) = code"
  "status (c_Data cc code ct data) = code"
  "status (c_Redirect cc cto code loc) = code"
  "status (c_File cc cto d p) = (if Exists d p then 200 else 404)"
  by (simp_all add: c_JSON_def c_Data_def c_Redirect_def c_File_def)



lemma serveThumb_cases [consumes 1, case_names hit nosrc readfail decodefail plain_saved
    plain_unsaved encfail resized_saved resized_unsaved]:
  assumes "serveThumb e d key plainCT spec width = (r, d', tr)"
  obtains
    (hit) "Exists d (ThumbPath key spec)" "r = c_File (Some immutableCC) None d (ThumbPath key spec)"
      "d' = d" "tr = []"
  | (nosrc) tr0 tr2 where "\<not> Exists d (ThumbPath key spec)" "openSource e d key = (None, tr0)"
      "presignRedirect e key (c_JSON 503 ''source unavailable'') = (r, tr2)" "d' = d" "tr = tr0 @ tr2"
  | (readfail) src tr0 data err where "\<not> Exists d (ThumbPath key spec)"
      "openSource e d key = (Some src, tr0)"
      "io_ReadAll (io_LimitReader src decodeLimit) = (data, Some err)"
      "r = c_JSON 500 ''read failed''" "d' = d" "tr = tr0"
  | (decodefail) src tr0 data err tr2 where "\<not> Exists d (ThumbPath key spec)"
      "openSource e d key = (Some src, tr0)"
      "io_ReadAll (io_LimitReader src decodeLimit) = (data, None)"
      "image_Decode e data = Inl err"
      "presignRedirect e key (c_JSON 400 ''decode failed'') = (r, tr2)" "d' = d"
      "tr = tr0 @ [Decode data] @ tr2"
  | (plain_saved) src tr0 data img where "\<not> Exists d (ThumbPath key spec)"
      "openSource e d key = (Some src, tr0)"
      "io_ReadAll (io_LimitReader src decodeLimit) = (data, None)"
      "image_Decode e data = Inr img" "img_dx img \<le> width"
      "Save (faults e) (os_pid e) (ThumbPath key spec) (bytes_NewReader data) d = (None, d')"
      "r = c_File (Some immutableCC) None d' (ThumbPath key spec)"
      "tr = tr0 @ [Decode data, CacheSave (ThumbPath key spec)]"
  | (plain_unsaved) src tr0 data img err where "\<not> Exists d (ThumbPath key spec)"
      "openSource e d key = (Some src, tr0)"
      "io_ReadAll (io_LimitReader src decodeLimit) = (data, None)"
      "image_Decode e data = Inr img" "img_dx img \<le> width"
      "Save (faults e) (os_pid e) (ThumbPath key spec) (bytes_NewReader data) d = (Some err, d')"
      "r = c_Data None 200 (plainCT data) data"
      "tr = tr0 @ [Decode data, CacheSave (ThumbPath key spec)]"
  | (encfail) src tr0 data img err where "\<not> Exists d (ThumbPath key spec)"
      "openSource e d key = (Some src, tr0)"
      "io_ReadAll (io_LimitReader src decodeLimit) = (data, None)"
      "image_Decode e data = Inr img" "width < img_dx img"
      "encodeThumb e (img_format img)
         (resample img width (thumbHeight (img_dy img) width (img_dx img))) = Inl err"
      "r = c_JSON 500 ''encode failed''" "d' = d" "tr = tr0 @ [Decode data]"
  | (resized_saved) src tr0 data img ct buf where "\<not> Exists d (ThumbPath key spec)"
      "openSource e d key = (Some src, tr0)"
      "io_ReadAll (io_LimitReader src decodeLimit) = (data, None)"
      "image_Decode e data = Inr img" "width < img_dx img"
      "encodeThumb e (img_format img)
         (resample img width (thumbHeight (img_dy img) width (img_dx img))) = Inr (ct, buf)"
      "Save (faults e) (os_pid e) (ThumbPath key spec) (bytes_NewReader buf) d = (None, d')"
      "r = c_Data (Some immutableCC) 200 ct buf"
      "tr = tr0 @ [Decode data, CacheSave (ThumbPath key spec)]"
  | (resized_unsaved) src tr0 data img ct buf err where "\<not> Exists d (ThumbPath key spec)"
      "openSource e d key = (Some src, tr0)"
      "io_ReadAll (io_LimitReader src decodeLimit) = (data, None)"
      "image_Decode e data = Inr img" "width < img_dx img"
      "encodeThumb e (img_format img)
         (resample img width (thumbHeight (img_dy img) width (img_dx img))) = Inr (ct, buf)"
      "Save (faults e) (os_pid e) (ThumbPath key spec) (bytes_NewReader buf) d = (Some err, d')"
      "r = c_Data (Some privateCC) 200 ct buf"
      "tr = tr0 @ [Decode data, CacheSave (ThumbPath key spec)]"
proof -
  let ?tp = "ThumbPath key spec"
  show thesis
  proof (cases "Exists d ?tp")
    case True
    with assms have "r = c_File (Some immutableCC) None d ?tp" "d' = d" "tr = []"
      by (auto simp: serveThumb_def Let_def)
    with True show thesis by (rule hit)
  next
    case miss: False
    obtain so tr0 where os: "openSource e d key = (so, tr0)" by force
    show thesis
    proof (cases so)
      case None
      obtain r1 tr2 where pr: "presignRedirect e key (c_JSON 503 ''source unavailable'') = (r1, tr2)"
        by force
      from assms miss os None pr have "r = r1" "d' = d" "tr = tr0 @ tr2"
        by (auto simp: serveThumb_def Let_def)
      with miss os None pr show thesis by (intro nosrc) simp_all
    next
      case (Some src)
      obtain data rerr where rd: "io_ReadAll (io_LimitReader src decodeLimit) = (data, rerr)"
        by force
      show thesis
      proof (cases rerr)
        case (Some err)
        with assms miss os \<open>so = Some src\<close> rd
        have "r = c_JSON 500 ''read failed''" "d' = d" "tr = tr0"
          by (auto simp: serveThumb_def Let_def)
        with miss os \<open>so = Some src\<close> rd Some show thesis by (intro readfail) simp_all
      next
        case None
        note rd' = rd[unfolded None]
        show thesis
        proof (cases "image_Decode e data")
          case (Inl err)
          obtain r1 tr2 where pr: "presignRedirect e key (c_JSON 400 ''decode failed'') = (r1, tr2)"
            by force
          from assms miss os \<open>so = Some src\<close> rd' Inl pr
          have "r = r1" "d' = d" "tr = tr0 @ [Decode data] @ tr2"
            by (auto simp: serveThumb_def Let_def)
          with miss os \<open>so = Some src\<close> rd' Inl pr show thesis by (intro decodefail) simp_all
        next
          case (Inr img)
          show thesis
          proof (cases "img_dx img \<le> width")
            case True
            obtain serr d1 where sv:
              "Save (faults e) (os_pid e) ?tp (bytes_NewReader data) d = (serr, d1)" by force
            show thesis
            proof (cases serr)
              case None
              with assms miss os \<open>so = Some src\<close> rd' Inr True sv
              have "r = c_File (Some immutableCC) None d1 ?tp" "d' = d1"
                "tr = tr0 @ [Decode data, CacheSave ?tp]"
                by (auto simp: serveThumb_def Let_def)
              with miss os \<open>so = Some src\<close> rd' Inr True sv None show thesis
                by (intro plain_saved) simp_all
            next
              case (Some err)
              with assms miss os \<open>so = Some src\<close> rd' Inr True sv
              have "r = c_Data None 200 (plainCT data) data" "d' = d1"
                "tr = tr0 @ [Decode data, CacheSave ?tp]"
                by (auto simp: serveThumb_def Let_def)
              with miss os \<open>so = Some src\<close> rd' Inr True sv Some show thesis
                by (intro plain_unsaved) simp_all
            qed
          next
            case False
            let ?dst = "resample img width (thumbHeight (img_dy img) width (img_dx img))"
            show thesis
            proof (cases "encodeThumb e (img_format img) ?dst")
              case (Inl err)
              with assms miss os \<open>so = Some src\<close> rd' Inr False
              have "r = c_JSON 500 ''encode failed''" "d' = d" "tr = tr0 @ [Decode data]"
                by (auto simp: serveThumb_def Let_def)
              with miss os \<open>so = Some src\<close> rd' Inr False Inl show thesis
                by (intro encfail) simp_all
            next
              case enc: (Inr cb)
              obtain ct buf where cb: "cb = (ct, buf)" by force
              obtain serr d1 where sv:
                "Save (faults e) (os_pid e) ?tp (bytes_NewReader buf) d = (serr, d1)" by force
              show thesis
              proof (cases serr)
                case None
                with assms miss os \<open>so = Some src\<close> rd' Inr False enc cb sv
                have "r = c_Data (Some immutableCC) 200 ct buf" "d' = d1"
                  "tr = tr0 @ [Decode data, CacheSave ?tp]"
                  by (auto simp: serveThumb_def Let_def)
                with miss os \<open>so = Some src\<close> rd' Inr False enc cb sv None show thesis
                  by (intro resized_saved) simp_all
              next
                case (Some err)
                with assms miss os \<open>so = Some src\<close> rd' Inr False enc cb sv
                have "r = c_Data (Some privateCC) 200 ct buf" "d' = d1"
                  "tr = tr0 @ [Decode data, CacheSave ?tp]"
                  by (auto simp: serveThumb_def Let_def)
                with miss os \<open>so = Some src\<close> rd' Inr False enc cb sv Some show thesis
                  by (intro resized_unsaved) simp_all
              qed
            qed
          qed
        qed
      qed
    qed
  qed
qed


lemma body_simps [simp]:
  "body (c_JSON code msg) = JSONError msg"
  "body (c_Data cc code ct data) = DataBody data"
  "body (c_Redirect cc cto code loc) = RedirectTo loc"
  "body (c_File cc cto d p) = FileBody p (readFile d p)"
  by (simp_all add: c_JSON_def c_Data_def c_Redirect_def c_File_def)

lemma cc_simps [simp]:
  "cache_control (c_JSON code msg) = None"
  "cache_control (c_Data cc code ct data) = cc"
  "cache_control (c_Redirect cc cto code loc) = cc"
  "cache_control (c_File cc cto d p) = cc"
  by (simp_all add: c_JSON_def c_Data_def c_Redirect_def c_File_def)



lemma not_Exists: "\<not> Exists d p \<Longrightarrow> d p = None"
  by (simp add: Exists_def)

lemma CC_distinct [simp]: "immutableCC \<noteq> privateCC" "privateCC \<noteq> immutableCC"
  by (simp_all add: immutableCC_def privateCC_def)

lemma presign_decode_notin:
  "presignRedirect e key r0 = (r, tr) \<Longrightarrow> Decode x \<notin> set tr \<and> CacheSave p \<notin> set tr"
  using presignRedirect_cases[of e key r0 r tr] by auto

lemma openSource_notin: "openSource e d key = (so, tr) \<Longrightarrow> Decode x \<notin> set tr \<and> CacheSave p \<notin> set tr"
  using openSource_events[of e d key] by auto


lemma presignOrPublic_cases:
  "presignOrPublic u key url ct = (r, tr) \<Longrightarrow>
     set tr \<subseteq> {S3Presign key} \<and>
     ((\<exists>loc. PresignGet u key = Inr loc \<and> r = c_Redirect (Some privateCC) ct 302 loc) \<or>
      (isl (PresignGet u key) \<and> r = c_Redirect (Some immutableCC) ct 302 url))"
  by (auto simp: presignOrPublic_def split: sum.splits)




lemma serveOriginal_cases [consumes 1, case_names hit nos3 redirected saved streamed]:
  assumes "serveOriginal e d url key contentType = (r, d', tr)"
  obtains
    (hit) "Exists d (PhotoPath key)"
      "r = c_File (Some immutableCC) (nonEmpty contentType) d (PhotoPath key)" "d' = d" "tr = []"
  | (nos3) "\<not> Exists d (PhotoPath key)" "s3 e = None"
      "r = c_Redirect (Some immutableCC) None 302 url" "d' = d" "tr = []"
  | (redirected) u ct tr2 where "\<not> Exists d (PhotoPath key)" "s3 e = Some u"
      "presignOrPublic u key url ct = (r, tr2)" "d' (PhotoPath key) = None"
      "\<forall>x. Decode x \<notin> set tr"
  | (saved) u rc s3CT cl where "\<not> Exists d (PhotoPath key)" "s3 e = Some u"
      "GetObject u 0 key = Inr (rc, s3CT, cl)"
      "Save (faults e) (os_pid e) (PhotoPath key) rc d = (None, d')"
      "r = c_File (Some immutableCC) (nonEmpty (if contentType = [] then s3CT else contentType))
             d' (PhotoPath key)"
      "tr = [S3Get key, CacheSave (PhotoPath key)]"
  | (streamed) u rc s3CT cl werr rc2 s3CT2 cl2 where "\<not> Exists d (PhotoPath key)" "s3 e = Some u"
      "GetObject u 0 key = Inr (rc, s3CT, cl)"
      "Save (faults e) (os_pid e) (PhotoPath key) rc d = (Some werr, d')"
      "GetObject u 1 key = Inr (rc2, s3CT2, cl2)" "rd_err rc2 = None" "\<not> client_write_fails e"
      "r = \<lparr>status = 200, cache_control = Some privateCC,
             content_type_hdr = nonEmpty (if contentType = [] then s3CT2 else contentType),
             body = StreamBody (rd_data rc2)\<rparr>"
      "tr = [S3Get key, CacheSave (PhotoPath key), S3Get key]"
proof -
  let ?cp = "PhotoPath key"
  show thesis
  proof (cases "Exists d ?cp")
    case True
    with assms have "r = c_File (Some immutableCC) (nonEmpty contentType) d ?cp" "d' = d" "tr = []"
      by (auto simp: serveOriginal_def Let_def)
    with True show thesis by (rule hit)
  next
    case miss: False
    show thesis
    proof (cases "s3 e")
      case None
      with assms miss have "r = c_Redirect (Some immutableCC) None 302 url" "d' = d" "tr = []"
        by (auto simp: serveOriginal_def Let_def)
      with miss None show thesis by (intro nos3)
    next
      case (Some u)
      show thesis
      proof (cases "GetObject u 0 key")
        case (Inl err)
        obtain r1 tr2 where pr: "presignOrPublic u key url None = (r1, tr2)" by force
        from assms miss Some Inl pr have e: "r = r1" "d' = d" "tr = S3Get key # tr2"
          by (auto simp: serveOriginal_def Let_def)
        from presignOrPublic_cases[OF pr] have "\<forall>x. Decode x \<notin> set tr2" by auto
        with e miss Some pr show thesis
          by (intro redirected[of u None tr2]) (auto simp: not_Exists)
      next
        case (Inr got)
        obtain rc s3CT cl where got: "got = (rc, s3CT, cl)" by (cases got) auto
        obtain serr d1 where sv: "Save (faults e) (os_pid e) ?cp rc d = (serr, d1)" by force
        show thesis
        proof (cases serr)
          case None
          with assms miss Some Inr got sv
          have "r = c_File (Some immutableCC) (nonEmpty (if contentType = [] then s3CT else contentType))
                  d1 ?cp" "d' = d1" "tr = [S3Get key, CacheSave ?cp]"
            by (auto simp: serveOriginal_def Let_def)
          with miss Some Inr got sv None show thesis by (intro saved) simp_all
        next
          case werr: (Some werr)
          from Save_err_path[OF sv[unfolded werr]] miss have d1: "d1 ?cp = None"
            by (simp add: not_Exists)
          show thesis
          proof (cases "GetObject u 1 key")
            case (Inl err)
            obtain r1 tr2 where pr: "presignOrPublic u key url None = (r1, tr2)" by force
            from assms miss Some \<open>GetObject u 0 key = Inr got\<close> got sv werr Inl pr
            have e: "r = r1" "d' = d1" "tr = [S3Get key, CacheSave ?cp, S3Get key] @ tr2"
              by (auto simp: serveOriginal_def Let_def)
            from presignOrPublic_cases[OF pr] have "\<forall>x. Decode x \<notin> set tr2" by auto
            with e miss Some pr d1 show thesis
              by (intro redirected[of u None tr2]) auto
          next
            case again: (Inr got2)
            obtain rc2 s3CT2 cl2 where got2: "got2 = (rc2, s3CT2, cl2)" by (cases got2) auto
            let ?ct = "if contentType = [] then s3CT2 else contentType"
            show thesis
            proof (cases "rd_err rc2 = None \<and> \<not> client_write_fails e")
              case True
              with assms miss Some \<open>GetObject u 0 key = Inr got\<close> got sv werr again got2
              have "r = \<lparr>status = 200, cache_control = Some privateCC,
                         content_type_hdr = nonEmpty ?ct, body = StreamBody (rd_data rc2)\<rparr>"
                "d' = d1" "tr = [S3Get key, CacheSave ?cp, S3Get key]"
                by (auto simp: serveOriginal_def Let_def)
              with miss Some \<open>GetObject u 0 key = Inr got\<close> got sv werr again got2 True
              show thesis by (intro streamed) simp_all
            next
              case False
              obtain r1 tr2 where pr: "presignOrPublic u key url (nonEmpty ?ct) = (r1, tr2)"
                by force
              from assms miss Some \<open>GetObject u 0 key = Inr got\<close> got sv werr again got2 False pr
              have e: "r = r1" "d' = d1" "tr = [S3Get key, CacheSave ?cp, S3Get key] @ tr2"
                by (auto simp: serveOriginal_def Let_def)
              from presignOrPublic_cases[OF pr] have "\<forall>x. Decode x \<notin> set tr2" by auto
              with e miss Some pr d1 show thesis
                by (intro redirected[of u "nonEmpty ?ct" tr2]) auto
            qed
          qed
        qed
      qed
    qed
  qed
qed



lemma withEvents_simp [simp]: "withEvents evs (r, d, tr) = (r, d, evs @ tr)"
  by (simp add: withEvents_def)


lemma GetPhotoThumbnail_serve:
  assumes "db_photos e ident = Some row" "thumbSpecWidth spec = Inr w"
  obtains r d' tr where
    "serveThumb e d (object_key row) (\<lambda>data. content_type row) spec w = (r, d', tr)"
    "GetPhotoThumbnail e d ident spec = (r, d', DbLookup ident # tr)"
proof -
  obtain r d' tr where s: "serveThumb e d (object_key row) (\<lambda>data. content_type row) spec w = (r, d', tr)"
    by (metis prod_cases3)
  with assms have "GetPhotoThumbnail e d ident spec = (r, d', DbLookup ident # tr)"
    by (simp add: GetPhotoThumbnail_def)
  with s show thesis by (rule that)
qed

lemma GetPhoto_serve:
  assumes "db_photos e ident = Some row"
  obtains (thumb) r d' tr where
    "0 < targetWidthOf (strings_TrimSpace (strings_ToLower q))"
    "serveThumb e d (object_key row)
       (\<lambda>data. if content_type row = [] then http_DetectContentType e data else content_type row)
       (''w'' @ fmt_d (targetWidthOf (strings_TrimSpace (strings_ToLower q))))
       (targetWidthOf (strings_TrimSpace (strings_ToLower q))) = (r, d', tr)"
    "GetPhoto e d ident q = (r, d', DbLookup ident # tr)"
  | (original) r d' tr where
    "targetWidthOf (strings_TrimSpace (strings_ToLower q)) = 0"
    "serveOriginal e d (public_url row) (object_key row) (content_type row) = (r, d', tr)"
    "GetPhoto e d ident q = (r, d', DbLookup ident # tr)"
proof (cases "0 < targetWidthOf (strings_TrimSpace (strings_ToLower q))")
  case True
  let ?w = "targetWidthOf (strings_TrimSpace (strings_ToLower q))"
  obtain r d' tr where s: "serveThumb e d (object_key row)
       (\<lambda>data. if content_type row = [] then http_DetectContentType e data else content_type row)
       (''w'' @ fmt_d ?w) ?w = (r, d', tr)"
    by (metis prod_cases3)
  with assms True have "GetPhoto e d ident q = (r, d', DbLookup ident # tr)"
    by (simp add: GetPhoto_def Let_def)
  with True s show thesis by (rule thumb)
next
  case False
  then have z: "targetWidthOf (strings_TrimSpace (strings_ToLower q)) = 0"
    by (auto simp: targetWidthOf_def split: if_splits)
  obtain r d' tr where s: "serveOriginal e d (public_url row) (object_key row) (content_type row) = (r, d', tr)"
    by (metis prod_cases3)
  with assms z have "GetPhoto e d ident q = (r, d', DbLookup ident # tr)"
    by (simp add: GetPhoto_def Let_def)
  with z s show thesis by (rule original)
qed


lemma serveThumb_decode_events:
  assumes "serveThumb e d key plainCT spec width = (r, d', tr)" "Decode x \<in> set tr"
  shows "\<not> Exists d (ThumbPath key spec) \<and>
         (\<exists>src tr0. openSource e d key = (Some src, tr0) \<and>
            io_ReadAll (io_LimitReader src decodeLimit) = (x, None))"
  using assms(1)
proof (cases rule: serveThumb_cases)
  case hit
  with assms(2) show ?thesis by simp
next
  case (nosrc tr0 tr2)
  from openSource_notin[OF nosrc(2)] presign_decode_notin[OF nosrc(3)] nosrc(5) assms(2)
  show ?thesis by auto
next
  case (readfail src tr0 data err)
  from openSource_notin[OF readfail(2)] readfail(6) assms(2) show ?thesis by auto
next
  case (decodefail src tr0 data err tr2)
  from openSource_notin[OF decodefail(2)] presign_decode_notin[OF decodefail(5)] decodefail(7) assms(2)
  have "x = data" by auto
  with decodefail show ?thesis by simp
next
  case (plain_saved src tr0 data img)
  from openSource_notin[OF plain_saved(2)] plain_saved(8) assms(2) have "x = data" by auto
  with plain_saved show ?thesis by simp
next
  case (plain_unsaved src tr0 data img err)
  from openSource_notin[OF plain_unsaved(2)] plain_unsaved(8) assms(2) have "x = data" by auto
  with plain_unsaved show ?thesis by simp
next
  case (encfail src tr0 data img err)
  from openSource_notin[OF encfail(2)] encfail(9) assms(2) have "x = data" by auto
  with encfail show ?thesis by simp
next
  case (resized_saved src tr0 data img ct buf)
  from openSource_notin[OF resized_saved(2)] resized_saved(9) assms(2) have "x = data" by auto
  with resized_saved show ?thesis by simp
next
  case (resized_unsaved src tr0 data img ct buf err)
  from openSource_notin[OF resized_unsaved(2)] resized_unsaved(9) assms(2) have "x = data" by auto
  with resized_unsaved show ?thesis by simp
qed


lemma GetPhotoThumbnail_rejects:
  "thumbSpecWidth spec = Inl msg \<Longrightarrow> GetPhotoThumbnail e d ident spec = (c_JSON 400 msg, d, [])"
  by (simp add: GetPhotoThumbnail_def)

subsection \<open>The sample environments, evaluated\<close>

lemma Save_no_faults:
  "Save no_faults pid path (bytes_NewReader x) d = (None, (d(path \<mapsto> x))(tmpName path pid := None))"
  using tmpName_neq_path[of path pid]
  by (auto simp: Save_def EnsureDir_def no_faults_def io_Copy_def bytes_NewReader_def Let_def
        os_Create_def file_Write_def os_Rename_def fun_eq_iff)

lemma sample_db [simp]: "db_photos baseEnv ''id1'' = Some sampleRow"
  "db_photos readFailEnv ''id1'' = Some sampleRow" "db_photos bigEnv ''id1'' = Some sampleRow"
  by (simp_all add: baseEnv_def readFailEnv_def bigEnv_def)

lemma sample_key [simp]: "object_key sampleRow = ''photos/a.png''"
  "public_url sampleRow = ''https://cdn.example/photos/a.png''"
  "content_type sampleRow = ''image/png''"
  by (simp_all add: sampleRow_def)

lemma spec_w100 [simp]: "thumbSpecWidth ''w100'' = Inr 100"
  by (simp add: thumbSpecWidth_def atoiWrap_def isDigit_def Let_def)

lemma Exists_empty [simp]: "\<not> Exists Map.empty p"
  by (simp add: Exists_def)




lemma lower_small: "strings_TrimSpace (strings_ToLower ''small'') = ''small''"
  by (simp add: strings_TrimSpace_def strings_ToLower_def asciiLower_def isSpace_def)


lemma big_take: "take (nat decodeLimit) bigData = 137 # replicate 33554431 0"
  by (simp add: decodeLimit_def bigData_def)

lemma big_length: "int (length bigData) = 33554433" "decodeLimit = 33554432"
  by (simp_all add: bigData_def decodeLimit_def)

lemma big_source:
  "openSource bigEnv Map.empty ''photos/a.png'' =
     (Some \<lparr>rd_data = bigData, rd_err = None\<rparr>, [S3Get ''photos/a.png''])"
  by (simp add: openSource_def Let_def bigEnv_def baseEnv_def storeWith_def GetObject_def)

lemma big_read:
  "io_ReadAll (io_LimitReader \<lparr>rd_data = bigData, rd_err = None\<rparr> decodeLimit)
     = (137 # replicate 33554431 0, None)"
  using big_take by (simp add: io_ReadAll_def io_LimitReader_def big_length)

lemma big_decode: "image_Decode bigEnv (137 # replicate 33554431 0) = Inr sampleImage"
  by (simp add: bigEnv_def baseEnv_def headerDecode_def)

lemma big_misc [simp]: "faults bigEnv = no_faults" "os_pid bigEnv = 4242"
  by (simp_all add: bigEnv_def baseEnv_def)

lemma big_thumb:
  "GetPhotoThumbnail bigEnv Map.empty ''id1'' ''w100'' =
     (let tp = ThumbPath ''photos/a.png'' ''w100'';
          d' = (Map.empty(tp \<mapsto> 137 # replicate 33554431 0))(tmpName tp 4242 := None)
      in (c_File (Some immutableCC) None d' tp, d',
          [DbLookup ''id1'', S3Get ''photos/a.png'', Decode (137 # replicate 33554431 0), CacheSave tp]))"
  by (simp add: GetPhotoThumbnail_def serveThumb_def big_source big_read big_decode
        Save_no_faults Let_def sampleImage_def)

lemma ReadAll_limit:
  assumes "io_ReadAll (io_LimitReader src decodeLimit) = (x, err)"
  shows "x = take (nat decodeLimit) (rd_data src) \<and> int (length x) \<le> decodeLimit"
  using assms
  by (auto simp: io_ReadAll_def io_LimitReader_def decodeLimit_def split: if_splits)

lemma ReadAll_oversized:
  assumes "decodeLimit \<le> int (length (rd_data src))"
  shows "io_ReadAll (io_LimitReader src decodeLimit) = (take (nat decodeLimit) (rd_data src), None)"
  using assms by (simp add: io_ReadAll_def io_LimitReader_def)

lemma serveThumb_decodes_prefix:
  assumes "serveThumb e d key plainCT spec width = (r, d', tr)"
    "\<not> Exists d (ThumbPath key spec)" "openSource e d key = (Some src, tr0)"
    "decodeLimit \<le> int (length (rd_data src))"
  shows "Decode (take (nat decodeLimit) (rd_data src)) \<in> set tr"
  using assms(1)
proof (cases rule: serveThumb_cases)
  case hit
  with assms(2) show ?thesis by simp
next
  case (nosrc tr0 tr2)
  with assms(3) show ?thesis by simp
next
  case (readfail src tr0 data err)
  with assms(3) ReadAll_oversized[OF assms(4)] show ?thesis by simp
qed (use assms(3) ReadAll_oversized[OF assms(4)] in auto)

lemma big_prefix: "take 33554432 bigData = 137 # replicate 33554431 0"
  by (simp add: bigData_def)

lemma big_length_nat: "length bigData = 33554433"
  by (simp add: bigData_def)

lemma big_cached: "fst (snd (GetPhotoThumbnail bigEnv Map.empty ''id1'' ''w100'')) (ThumbPath ''photos/a.png'' ''w100'')
     = Some (137 # replicate 33554431 0)"
  using tmpName_neq_path[of "ThumbPath ''photos/a.png'' ''w100''" 4242]
  by (simp add: big_thumb Let_def)

lemma big_served: "body (fst (GetPhotoThumbnail bigEnv Map.empty ''id1'' ''w100'')) =
     FileBody (ThumbPath ''photos/a.png'' ''w100'') (137 # replicate 33554431 0)"
  using tmpName_neq_path[of "ThumbPath ''photos/a.png'' ''w100''" 4242]
  by (simp add: big_thumb Let_def readFile_def)

subsection \<open>Error statuses\<close>




subsection \<open>Cache directives\<close>




subsection \<open>The decode limit\<close>

text \<open>
  Claim C5 (amended), for both retrieval handlers. The decoder is only ever called on
  the first \<open>decodeLimit\<close> bytes (32 MiB) of the source: its input is never longer.
  A larger source is not rejected: when a thumbnail is asked for and is not in the
  cache, the first 32 MiB of the source are decoded.
\<close>

theorem decode_input_truncated:
  assumes "db_photos e ident = Some row"
  shows "(\<forall>out data. (out = GetPhotoThumbnail e d ident spec \<or> out = GetPhoto e d ident q) \<and>
            Decode data \<in> set (snd (snd out)) \<longrightarrow>
            int (length data) \<le> decodeLimit \<and>
            (\<exists>src tr0. openSource e d (object_key row) = (Some src, tr0) \<and>
               data = take (nat decodeLimit) (rd_data src))) \<and>
         (\<forall>src tr0 w. openSource e d (object_key row) = (Some src, tr0) \<and>
            decodeLimit \<le> int (length (rd_data src)) \<and>
            thumbSpecWidth spec = Inr w \<and> \<not> Exists d (ThumbPath (object_key row) spec) \<longrightarrow>
            Decode (take (nat decodeLimit) (rd_data src))
              \<in> set (snd (snd (GetPhotoThumbnail e d ident spec)))) \<and>
         (\<forall>src tr0 w. openSource e d (object_key row) = (Some src, tr0) \<and>
            decodeLimit \<le> int (length (rd_data src)) \<and>
            w = targetWidthOf (strings_TrimSpace (strings_ToLower q)) \<and> 0 < w \<and>
            \<not> Exists d (ThumbPath (object_key row) (''w'' @ fmt_d w)) \<longrightarrow>
            Decode (take (nat decodeLimit) (rd_data src)) \<in> set (snd (snd (GetPhoto e d ident q))))"
    (is "?A \<and> ?B \<and> ?C")
proof -
  have viaThumb: "int (length data) \<le> decodeLimit \<and>
            (\<exists>src tr0. openSource e d (object_key row) = (Some src, tr0) \<and>
               data = take (nat decodeLimit) (rd_data src))"
    if s: "serveThumb e d (object_key row) ct sp w = (r, d', tr)" and m: "Decode data \<in> set tr"
    for ct sp w r d' tr data
    using serveThumb_decode_events[OF s m] ReadAll_limit by blast
  have g1: "int (length data) \<le> decodeLimit \<and>
            (\<exists>src tr0. openSource e d (object_key row) = (Some src, tr0) \<and>
               data = take (nat decodeLimit) (rd_data src))"
    if m: "Decode data \<in> set (snd (snd (GetPhotoThumbnail e d ident spec)))" for data
  proof (cases "thumbSpecWidth spec")
    case (Inl msg)
    from GetPhotoThumbnail_rejects[OF Inl] m show ?thesis by simp
  next
    case (Inr w)
    from GetPhotoThumbnail_serve[OF assms Inr, of d] obtain r d' tr where
      s: "serveThumb e d (object_key row) (\<lambda>data. content_type row) spec w = (r, d', tr)"
      and o: "GetPhotoThumbnail e d ident spec = (r, d', DbLookup ident # tr)" by blast
    from m o have "Decode data \<in> set tr" by simp
    with s show ?thesis by (rule viaThumb)
  qed
  have g2: "int (length data) \<le> decodeLimit \<and>
            (\<exists>src tr0. openSource e d (object_key row) = (Some src, tr0) \<and>
               data = take (nat decodeLimit) (rd_data src))"
    if m: "Decode data \<in> set (snd (snd (GetPhoto e d ident q)))" for data
    using assms
  proof (cases rule: GetPhoto_serve[where d = d and q = q])
    case (thumb r d' tr)
    from m thumb(3) have "Decode data \<in> set tr" by simp
    with thumb(2) show ?thesis by (rule viaThumb)
  next
    case (original r d' tr)
    from original(2) have "\<And>x. Decode x \<notin> set tr"
      by (cases rule: serveOriginal_cases) auto
    with m original(3) show ?thesis by simp
  qed
  have A: ?A using g1 g2 by blast
  have B: ?B
  proof (intro allI impI)
    fix src tr0 w
    assume a: "openSource e d (object_key row) = (Some src, tr0) \<and>
            decodeLimit \<le> int (length (rd_data src)) \<and>
            thumbSpecWidth spec = Inr w \<and> \<not> Exists d (ThumbPath (object_key row) spec)"
    then have sw: "thumbSpecWidth spec = Inr w" by simp
    from GetPhotoThumbnail_serve[OF assms sw, of d] obtain r d' tr where
      s: "serveThumb e d (object_key row) (\<lambda>data. content_type row) spec w = (r, d', tr)"
      and o: "GetPhotoThumbnail e d ident spec = (r, d', DbLookup ident # tr)" by blast
    from a serveThumb_decodes_prefix[OF s, of src tr0]
    show "Decode (take (nat decodeLimit) (rd_data src)) \<in> set (snd (snd (GetPhotoThumbnail e d ident spec)))"
      unfolding o by simp
  qed
  have C: ?C
  proof (intro allI impI)
    fix src tr0 w
    assume a: "openSource e d (object_key row) = (Some src, tr0) \<and>
            decodeLimit \<le> int (length (rd_data src)) \<and>
            w = targetWidthOf (strings_TrimSpace (strings_ToLower q)) \<and> 0 < w \<and>
            \<not> Exists d (ThumbPath (object_key row) (''w'' @ fmt_d w))"
    from assms show "Decode (take (nat decodeLimit) (rd_data src)) \<in> set (snd (snd (GetPhoto e d ident q)))"
    proof (cases rule: GetPhoto_serve[where d = d and q = q])
      case (thumb r d' tr)
      from a serveThumb_decodes_prefix[OF thumb(2), of src tr0] show ?thesis
        unfolding thumb(3) by auto
    next
      case (original r d' tr)
      from a original(1) have False by auto
      then show ?thesis ..
    qed
  qed
  from A B C show ?thesis by blast
qed

theorem decode_input_truncated_witness:
  "Decode (take (nat decodeLimit) bigData) \<in> set (snd (snd (GetPhoto bigEnv Map.empty ''id1'' ''small'')))"
proof -
  have w: "targetWidthOf (strings_TrimSpace (strings_ToLower ''small'')) = 100"
    by (simp add: lower_small targetWidthOf_def)
  from decode_input_truncated[OF sample_db(3), of Map.empty "''w100''" "''small''"]
  have "\<forall>src tr0 w. openSource bigEnv Map.empty (object_key sampleRow) = (Some src, tr0) \<and>
            decodeLimit \<le> int (length (rd_data src)) \<and>
            w = targetWidthOf (strings_TrimSpace (strings_ToLower ''small'')) \<and> 0 < w \<and>
            \<not> Exists Map.empty (ThumbPath (object_key sampleRow) (''w'' @ fmt_d w)) \<longrightarrow>
            Decode (take (nat decodeLimit) (rd_data src))
              \<in> set (snd (snd (GetPhoto bigEnv Map.empty ''id1'' ''small'')))"
    by blast
  from this[rule_format, of "\<lparr>rd_data = bigData, rd_err = None\<rparr>" "[S3Get ''photos/a.png'']" 100]
  show ?thesis
    using big_source w by (simp add: big_length)
qed

text \<open>
  Claim C5 as stated fails: a source of 32 MiB and one byte is decoded, and the request
  succeeds.
\<close>

theorem oversized_source_is_decoded:
  "decodeLimit < int (length bigData) \<and>
   status (fst (GetPhotoThumbnail bigEnv Map.empty ''id1'' ''w100'')) = 200 \<and>
   Decode (take (nat decodeLimit) bigData)
     \<in> set (snd (snd (GetPhotoThumbnail bigEnv Map.empty ''id1'' ''w100'')))"
  using tmpName_neq_path[of "ThumbPath ''photos/a.png'' ''w100''" 4242]
  by (simp add: big_thumb big_prefix big_length Let_def Exists_def)

text \<open>
  Claim C6. The image is one pixel wide, the requested width is 100, and the source
  has 33554433 bytes: the bytes saved under the thumbnail's path and served are the
  first 33554432 bytes of the source, not the source.
\<close>

theorem no_upscale_caches_truncated_source:
  "img_dx sampleImage \<le> 100 \<and>
   body (fst (GetPhotoThumbnail bigEnv Map.empty ''id1'' ''w100'')) =
     FileBody (ThumbPath ''photos/a.png'' ''w100'') (take 33554432 bigData) \<and>
   fst (snd (GetPhotoThumbnail bigEnv Map.empty ''id1'' ''w100'')) (ThumbPath ''photos/a.png'' ''w100'')
     = Some (take 33554432 bigData) \<and>
   length (take 33554432 bigData) = 33554432 \<and> length bigData = 33554433"
  by (simp add: big_prefix big_length_nat big_cached big_served sampleImage_def)

subsection \<open>The thumbnail spec\<close>

text \<open>
  Claim C7. The width of \<open>w18446744073709551716\<close> is \<open>2 ^ 64 + 100\<close>; the 64-bit
  accumulator wraps around to 100, the spec is accepted, and the handler goes on to
  the metadata store.
\<close>

theorem spec_width_wraps_around:
  "thumbSpecWidth ''w18446744073709551716'' = Inr 100 \<and>
   (\<forall>e d ident. \<exists>r d' tr.
      GetPhotoThumbnail e d ident ''w18446744073709551716'' = (r, d', DbLookup ident # tr))"
proof -
  have w: "thumbSpecWidth ''w18446744073709551716'' = Inr 100"
    by (simp add: thumbSpecWidth_def atoiWrap_def isDigit_def Let_def)
  have "\<exists>r d' tr. GetPhotoThumbnail e d ident ''w18446744073709551716'' = (r, d', DbLookup ident # tr)"
    for e d ident
  proof (cases "db_photos e ident")
    case None
    with w show ?thesis by (simp add: GetPhotoThumbnail_def)
  next
    case (Some row)
    from GetPhotoThumbnail_serve[OF Some w, of d] show ?thesis by metis
  qed
  with w show ?thesis by blast
qed

subsection \<open>Upload\<close>


subsection \<open>The height of a thumbnail\<close>

lemma pow2_powi: "pow2 k = 2 powi k"
  by (simp add: pow2_def power_int_def inverse_eq_divide power_one_over)

lemma pow2_pos [simp]: "0 < pow2 k"
  by (simp add: pow2_def)

lemma pow2_nz [simp]: "pow2 k \<noteq> 0"
  by (simp add: pow2_def)

lemma pow2_nonneg [simp]: "0 \<le> pow2 k"
  by (simp add: pow2_def)

lemma abs_pow2 [simp]: "\<bar>pow2 k\<bar> = pow2 k"
  by (simp add: pow2_def)

lemma pow2_add: "pow2 (i + j) = pow2 i * pow2 j"
  by (simp add: pow2_powi power_int_add)

lemma pow2_nat: "0 \<le> k \<Longrightarrow> pow2 k = 2 ^ nat k"
  by (simp add: pow2_def)

lemma pow2_Suc: "pow2 (k + 1) = 2 * pow2 k"
  by (simp add: pow2_powi power_int_add_1')

lemma pow2_mono: "i \<le> j \<Longrightarrow> pow2 i \<le> pow2 j"
proof -
  assume "i \<le> j"
  then obtain n where j: "j = i + int n" by (metis zle_iff_zadd)
  have "1 \<le> pow2 (int n)" by (simp add: pow2_def)
  then have "pow2 i * 1 \<le> pow2 i * pow2 (int n)"
    by (intro mult_left_mono) (simp_all add: less_imp_le)
  then show ?thesis by (simp add: j pow2_add)
qed

lemma pow2_less_imp: "pow2 i < pow2 j \<Longrightarrow> i < j"
  using pow2_mono[of j i] by (cases "i < j") auto

lemma bitlen_pow2_bounds:
  assumes "0 < a"
  shows "pow2 (bitlen a - 1) \<le> of_int a" "of_int a < pow2 (bitlen a)"
proof -
  from assms have la: "1 \<le> bitlen a"
    using bitlen_eq_zero_iff[of a] bitlen_nonneg[of a] by linarith
  from bitlen_bounds[OF assms]
  have "(of_int (2 ^ nat (bitlen a - 1)) :: rat) \<le> of_int a"
    and "(of_int a :: rat) < of_int (2 ^ nat (bitlen a))"
    by (simp_all only: of_int_le_iff of_int_less_iff)
  then have "(2 ^ nat (bitlen a - 1) :: rat) \<le> of_int a" "(of_int a :: rat) < 2 ^ nat (bitlen a)"
    by simp_all
  with la show "pow2 (bitlen a - 1) \<le> of_int a" "of_int a < pow2 (bitlen a)"
    by (simp_all add: pow2_nat)
qed

lemma ilog2_bounds:
  assumes "0 < x"
  shows "pow2 (ilog2 x) \<le> x \<and> x < pow2 (ilog2 x + 1)"
proof -
  obtain a b where q: "quotient_of x = (a, b)" by force
  from quotient_of_denom_pos[OF q] have b: "0 < b" .
  from quotient_of_div[OF q] have x: "x = of_int a / of_int b" .
  with assms b have a: "0 < a" by (simp add: zero_less_divide_iff)
  let ?la = "bitlen a" and ?lb = "bitlen b"
  from a have la: "1 \<le> ?la" using bitlen_eq_zero_iff[of a] bitlen_nonneg[of a] by linarith
  from b have lb: "1 \<le> ?lb" using bitlen_eq_zero_iff[of b] bitlen_nonneg[of b] by linarith
  have A1: "pow2 (?la - 1) \<le> of_int a" and A2: "of_int a < pow2 ?la"
    using bitlen_pow2_bounds[OF a] by simp_all
  have B1: "pow2 (?lb - 1) \<le> of_int b" and B2: "of_int b < pow2 ?lb"
    using bitlen_pow2_bounds[OF b] by simp_all
  let ?k0 = "?la - ?lb"
  have bpos: "(0::rat) < of_int b" using b by simp
  have up: "x < pow2 (?k0 + 1)"
  proof -
    have "of_int a < pow2 (?k0 + 1) * pow2 (?lb - 1)"
      using A2 by (simp flip: pow2_add)
    also have "\<dots> \<le> pow2 (?k0 + 1) * of_int b"
      using B1 by (intro mult_left_mono) (simp_all add: less_imp_le)
    finally show ?thesis using bpos by (simp add: x pos_divide_less_eq)
  qed
  have lo: "pow2 (?k0 - 1) < x"
  proof -
    have "pow2 (?k0 - 1) * of_int b < pow2 (?k0 - 1) * pow2 ?lb"
      using B2 by (intro mult_strict_left_mono) simp_all
    also have "\<dots> = pow2 (?la - 1)" by (simp flip: pow2_add)
    also have "\<dots> \<le> of_int a" by (rule A1)
    finally show ?thesis using bpos by (simp add: x pos_less_divide_eq)
  qed
  show ?thesis
  proof (cases "pow2 ?k0 \<le> x")
    case True
    then have "ilog2 x = ?k0" by (simp add: ilog2_def q)
    with True up show ?thesis by simp
  next
    case False
    then have "ilog2 x = ?k0 - 1" by (simp add: ilog2_def q)
    with False lo show ?thesis by simp
  qed
qed

lemma round_half_even_err: "\<bar>of_int (round_half_even y) - y\<bar> \<le> 1 / 2"
proof -
  have "of_int \<lfloor>y\<rfloor> \<le> y" "y < of_int \<lfloor>y\<rfloor> + 1" by linarith+
  then show ?thesis
    by (auto simp: round_half_even_def Let_def abs_le_iff)
qed

lemma round_half_even_int: "round_half_even (of_int n) = n"
  by (simp add: round_half_even_def)


lemma float64_round_pos:
  assumes "0 < x"
  shows "float64_round x =
     of_int (round_half_even (x / pow2 (ilog2 x - 52))) * pow2 (ilog2 x - 52)"
  using assms by (simp add: float64_round_def Let_def)

lemma float64_round_err:
  assumes "0 < x"
  shows "\<bar>float64_round x - x\<bar> \<le> x / 2 ^ 53"
proof -
  let ?e = "ilog2 x - 52"
  let ?y = "x / pow2 ?e"
  let ?m = "round_half_even ?y"
  have pe: "0 < pow2 ?e" by simp
  have "float64_round x - x = (of_int ?m - ?y) * pow2 ?e"
    using pe by (simp add: float64_round_pos[OF assms] left_diff_distrib)
  then have "\<bar>float64_round x - x\<bar> = \<bar>of_int ?m - ?y\<bar> * pow2 ?e"
    using pe by (simp add: abs_mult)
  also have "\<dots> \<le> (1 / 2) * pow2 ?e"
    using round_half_even_err[of ?y] pe by (intro mult_right_mono) simp_all
  finally have b: "\<bar>float64_round x - x\<bar> \<le> pow2 ?e / 2" by simp
  have "pow2 (ilog2 x) = pow2 ?e * pow2 52"
    by (simp flip: pow2_add)
  also have "pow2 52 = 2 ^ 52" by (simp add: pow2_def)
  finally have "pow2 ?e * 2 ^ 52 \<le> x"
    using ilog2_bounds[OF assms] by simp
  then have "pow2 ?e \<le> x / 2 ^ 52"
    by (simp add: pos_le_divide_eq)
  then have "pow2 ?e / 2 \<le> x / 2 ^ 53" by simp
  with b show ?thesis by linarith
qed

lemma float64_round_gt0:
  assumes "0 < x"
  shows "0 < float64_round x"
proof -
  have "x / 2 ^ 53 < x" using assms by (simp add: pos_divide_less_eq)
  with float64_round_err[OF assms] show ?thesis by linarith
qed

lemma float64_exact:
  assumes "0 \<le> i" "i < 2 ^ 53"
  shows "float64 i = of_int i"
proof (cases "i = 0")
  case True
  then show ?thesis by (simp add: float64_def float64_round_def)
next
  case False
  with assms have x: "(0::rat) < of_int i" by simp
  let ?k = "ilog2 (of_int i)"
  let ?e = "?k - 52"
  have "pow2 ?k \<le> of_int i" using ilog2_bounds[OF x] by simp
  also have "(of_int i :: rat) < of_int (2 ^ 53)" using assms(2) by (simp only: of_int_less_iff)
  also have "(of_int (2 ^ 53) :: rat) = pow2 53" by (simp add: pow2_def)
  finally have "?k < 53" by (rule pow2_less_imp)
  then have e: "- ?e \<ge> 0" by simp
  have inv: "pow2 (- ?e) * pow2 ?e = 1"
    by (simp add: pow2_def flip: pow2_add)
  then have "1 / pow2 ?e = pow2 (- ?e)"
    by (simp add: divide_eq_eq)
  then have "of_int i / pow2 ?e = of_int i * pow2 (- ?e)"
    by (metis times_divide_eq_right mult.right_neutral)
  also have "\<dots> = of_int (i * 2 ^ nat (- ?e))"
    using e by (simp add: pow2_nat)
  finally have y: "of_int i / pow2 ?e = of_int (i * 2 ^ nat (- ?e))" .
  have "float64 i = of_int (i * 2 ^ nat (- ?e)) * pow2 ?e"
    unfolding float64_def float64_round_pos[OF x] y round_half_even_int ..
  also have "\<dots> = of_int i * (pow2 (- ?e) * pow2 ?e)"
    using e by (simp add: pow2_nat)
  finally show ?thesis by (simp only: inv mult_1_right)
qed


lemma div53_le: "0 < (x::rat) \<Longrightarrow> x / 2 ^ 53 \<le> x"
  by simp

lemma scale53: "(y::rat) < 2 ^ 51 \<Longrightarrow> 3 * y / 2 ^ 53 < 3 * 2 ^ 51 / 2 ^ 53"
  by simp

lemma two_roundings:
  fixes h Q q p :: rat
  assumes "0 < h" "0 < Q" "\<bar>q - Q\<bar> \<le> Q / 2 ^ 53" "\<bar>p - h * q\<bar> \<le> h * q / 2 ^ 53"
  shows "\<bar>p - h * Q\<bar> \<le> 3 * (h * Q) / 2 ^ 53"
proof -
  have E: "0 < h * Q" using assms(1,2) by (intro mult_pos_pos)
  have "\<bar>h * q - h * Q\<bar> = h * \<bar>q - Q\<bar>"
    using assms(1) by (simp add: abs_mult flip: right_diff_distrib)
  also have "\<dots> \<le> h * (Q / 2 ^ 53)"
    using assms(1,3) by (intro mult_left_mono) simp_all
  finally have PE: "\<bar>h * q - h * Q\<bar> \<le> h * Q / 2 ^ 53" by simp
  have "h * Q / 2 ^ 53 \<le> h * Q" using E by (rule div53_le)
  with PE have "h * q \<le> 2 * (h * Q)" by linarith
  then have "h * q / 2 ^ 53 \<le> 2 * (h * Q) / 2 ^ 53" by (rule divide_right_mono) simp
  with assms(4) PE show ?thesis by linarith
qed

lemma scale_bound:
  fixes p E D :: rat
  assumes "0 < D" "\<bar>p - E\<bar> \<le> 3 * E / 2 ^ 53" "E * D < 2 ^ 51"
  shows "\<bar>p * D - E * D\<bar> < 1"
proof -
  have "\<bar>p * D - E * D\<bar> = \<bar>p - E\<bar> * D"
    using assms(1) by (simp add: abs_mult flip: left_diff_distrib)
  also have "\<dots> \<le> (3 * E / 2 ^ 53) * D"
    using assms(1,2) by (intro mult_right_mono) simp_all
  also have "\<dots> = 3 * (E * D) / 2 ^ 53" by simp
  also have "\<dots> < 3 * 2 ^ 51 / 2 ^ 53"
    using assms(3) by (rule scale53)
  also have "\<dots> < (1::rat)" by simp
  finally show ?thesis .
qed

lemma scaled_close:
  assumes "0 < w" "w < dx" "0 < dy" "dy * w < 2 ^ 51" "dx < 2 ^ 53"
  defines "p \<equiv> float64_mul (float64 dy) (float64_div (float64 w) (float64 dx))"
  shows "0 < p" and "\<bar>p * of_int dx - of_int (dy * w)\<bar> < 1"
proof -
  define D W H :: rat where "D = of_int dx" and "W = of_int w" and "H = of_int dy"
  have D: "0 < D" and W: "0 < W" and H: "0 < H" using assms by (simp_all add: D_def W_def H_def)
  have "dy * 1 \<le> dy * w" using assms(1,3) by (intro mult_left_mono) simp_all
  with assms(4) have dyb: "dy < 2 ^ 53" by simp
  from assms(2,5) have wb: "w < 2 ^ 53" by simp
  have fw: "float64 w = W" unfolding W_def using assms(1) wb by (intro float64_exact) simp_all
  have fd: "float64 dx = D" unfolding D_def using assms(1,2,5) by (intro float64_exact) simp_all
  have fh: "float64 dy = H" unfolding H_def using assms(3) dyb by (intro float64_exact) simp_all
  define Q where "Q = W / D"
  define q where "q = float64_round Q"
  have Q: "0 < Q" using D W by (simp add: Q_def)
  have q: "0 < q" unfolding q_def using Q by (rule float64_round_gt0)
  have qe: "\<bar>q - Q\<bar> \<le> Q / 2 ^ 53" unfolding q_def using Q by (rule float64_round_err)
  have P: "0 < H * q" using H q by (intro mult_pos_pos)
  have p: "p = float64_round (H * q)"
    by (simp add: p_def float64_mul_def float64_div_def fw fd fh q_def Q_def)
  show "0 < p" unfolding p using P by (rule float64_round_gt0)
  have pe: "\<bar>p - H * q\<bar> \<le> H * q / 2 ^ 53" unfolding p using P by (rule float64_round_err)
  from two_roundings[OF H Q qe pe] have tot: "\<bar>p - H * Q\<bar> \<le> 3 * (H * Q) / 2 ^ 53" .
  have ED: "H * Q * D = of_int (dy * w)"
    using D by (simp add: Q_def H_def W_def D_def)
  have "(of_int (dy * w) :: rat) < of_int (2 ^ 51)"
    using assms(4) by (simp only: of_int_less_iff)
  then have nb: "H * Q * D < 2 ^ 51" unfolding ED by simp
  from scale_bound[OF D tot nb] have "\<bar>p * D - of_int (dy * w)\<bar> < 1"
    unfolding ED .
  then show "\<bar>p * of_int dx - of_int (dy * w)\<bar> < 1"
    unfolding D_def .
qed

lemma floor_between:
  fixes p :: rat
  assumes "0 < dx" "\<bar>p * of_int dx - of_int n\<bar> < 1"
  shows "\<not> dx dvd n \<Longrightarrow> \<lfloor>p\<rfloor> = n div dx"
    and "dx dvd n \<Longrightarrow> \<lfloor>p\<rfloor> = n div dx \<or> \<lfloor>p\<rfloor> = n div dx - 1"
proof -
  let ?D = "of_int dx :: rat"
  let ?qt = "n div dx" and ?r = "n mod dx"
  have D: "0 < ?D" using assms(1) by simp
  have n: "(of_int n :: rat) = of_int ?qt * ?D + of_int ?r"
    by (metis mult.commute of_int_add of_int_mult mult_div_mod_eq)
  have r: "0 \<le> ?r" "?r < dx" using assms(1) by simp_all
  from assms(2) have lo: "of_int n - 1 < p * ?D" and hi: "p * ?D < of_int n + 1"
    by (simp_all add: abs_less_iff)
  {
    assume "\<not> dx dvd n"
    then have "?r \<noteq> 0" by (simp add: dvd_eq_mod_eq_0)
    with r have r1: "1 \<le> ?r" "?r + 1 \<le> dx" by simp_all
    then have r1': "(1::rat) \<le> of_int ?r" "(of_int ?r :: rat) + 1 \<le> ?D"
      by (metis of_int_1 of_int_le_iff, metis of_int_1 of_int_add of_int_le_iff)
    from lo n r1' have "of_int ?qt * ?D < p * ?D" by linarith
    then have a: "of_int ?qt < p" using D by (simp add: mult_less_cancel_right_pos)
    from hi n r1' have "p * ?D < (of_int ?qt + 1) * ?D" by (simp add: distrib_right)
    then have b: "p < of_int ?qt + 1" using D by (simp only: mult_less_cancel_right_pos)
    from a b show "\<lfloor>p\<rfloor> = n div dx" by (intro floor_unique) simp_all
  }
  {
    assume "dx dvd n"
    then have r0: "?r = 0" by (simp add: dvd_eq_mod_eq_0)
    have "1 \<le> dx" using assms(1) by simp
    then have "(of_int 1 :: rat) \<le> of_int dx" by (simp only: of_int_le_iff)
    then have D1: "1 \<le> ?D" by simp
    from lo n r0 D1 have "(of_int ?qt - 1) * ?D < p * ?D" by (simp add: left_diff_distrib)
    then have a: "of_int ?qt - 1 < p" using D by (simp only: mult_less_cancel_right_pos)
    from hi n r0 D1 have "p * ?D < (of_int ?qt + 1) * ?D" by (simp add: distrib_right)
    then have b: "p < of_int ?qt + 1" using D by (simp only: mult_less_cancel_right_pos)
    show "\<lfloor>p\<rfloor> = n div dx \<or> \<lfloor>p\<rfloor> = n div dx - 1"
    proof (cases "of_int ?qt \<le> p")
      case True
      with b have "\<lfloor>p\<rfloor> = ?qt" by (intro floor_unique) simp_all
      then show ?thesis by simp
    next
      case False
      with a have "\<lfloor>p\<rfloor> = ?qt - 1" by (intro floor_unique) simp_all
      then show ?thesis by simp
    qed
  }
qed

text \<open>
  Claim C2 (amended). For a source wider than the requested width, the height is the
  double-precision product \<open>nativeHeight * (requestedWidth / nativeWidth)\<close> with its
  fraction dropped, and 1 when that is 0. When \<open>nativeHeight * requestedWidth\<close> is not a
  multiple of the native width this is the integer quotient, rounded down, not to the
  nearest; when it is a multiple, it is the quotient or, by the rounding of the
  division, one less. This holds for every size an image can have: the requested width
  is at most 4096, so that the product stays below \<open>2 ^ 51\<close>. A source of 1000 by 500
  at width 200 gives 100.
\<close>

theorem thumbHeight_truncates:
  assumes "0 < w" "w < dx" "0 \<le> dy" "dy * w < 2 ^ 51" "dx < 2 ^ 53"
  shows "(\<not> dx dvd dy * w \<longrightarrow> thumbHeight dy w dx = max 1 (dy * w div dx)) \<and>
         (dx dvd dy * w \<longrightarrow> thumbHeight dy w dx = max 1 (dy * w div dx) \<or>
                            thumbHeight dy w dx = max 1 (dy * w div dx - 1)) \<and>
         thumbHeight 500 200 1000 = 100"
proof -
  have ex: "thumbHeight 500 200 1000 = 100" by code_simp
  show ?thesis
  proof (cases "dy = 0")
    case True
    have "scaledHeight 0 w dx = 0"
      by (simp add: scaledHeight_def float64_mul_def float64_def float64_round_def
          int_of_float64_def)
    with True ex show ?thesis by (simp add: thumbHeight_def)
  next
    case False
    with assms(3) have dy: "0 < dy" by simp
    let ?p = "float64_mul (float64 dy) (float64_div (float64 w) (float64 dx))"
    from scaled_close[OF assms(1,2) dy assms(4,5)]
    have p: "0 < ?p" and c: "\<bar>?p * of_int dx - of_int (dy * w)\<bar> < 1" by simp_all
    from assms(1,2) have dx: "0 < dx" by simp
    from p have sh: "scaledHeight dy w dx = \<lfloor>?p\<rfloor>"
      by (simp add: scaledHeight_def int_of_float64_def)
    have th: "thumbHeight dy w dx = max 1 \<lfloor>?p\<rfloor>"
      by (simp add: thumbHeight_def sh Let_def max_def)
    from floor_between[OF dx c] ex show ?thesis unfolding th by auto
  qed
qed

theorem thumbHeight_truncates_witness: "thumbHeight 200 100 300 = 66"
  using thumbHeight_truncates[of 100 300 200] by simp

text \<open>
  Claim C2 as stated fails: a source of 300 by 200 at width 100 gives the height 66,
  and \<open>200 * 100 / 300\<close> rounded is 67.
\<close>

theorem thumbHeight_not_rounded:
  "thumbHeight 200 100 300 = 66 \<and> specHeight 200 100 300 = 67"
  by code_simp

end
